theory Spec2Isabelle
  imports Complex_Main "HOL-Library.Sublist" "HOL-Library.Dlist"
begin

section \<open>Stepwise feature selection (\<open>stock_estimate.py\<close>)\<close>

text \<open>
  The repository is one script whose only function is \<open>stepwise_selection\<close>: a
  forward-backward selection of regressors driven by the coefficient p-values of
  ordinary-least-squares fits. The fits themselves are done by \<open>statsmodels\<close> on \<open>pandas\<close>
  frames; they are not code of the repository and enter the model as parameters.
\<close>

subsection \<open>Floats and the reductions of a p-value series\<close>

text \<open>
  A Python float is either NaN or a number; comparisons with NaN are false. The numbers are
  left polymorphic in a linear order (the reals in the examples).
\<close>

datatype 'p float = NaN | Num 'p

fun flt :: "'p::linorder float \<Rightarrow> 'p float \<Rightarrow> bool" where
  "flt (Num a) (Num b) = (a < b)"
| "flt _ _ = False"

fun fgt :: "'p::linorder float \<Rightarrow> 'p float \<Rightarrow> bool" where
  "fgt (Num a) (Num b) = (b < a)"
| "fgt _ _ = False"


text \<open>\<open>Series.min()\<close> and \<open>Series.max()\<close> skip NaN; on an empty or all-NaN series they are NaN.\<close>

fun nanmin :: "'p::linorder float list \<Rightarrow> 'p float" where
  "nanmin [] = NaN"
| "nanmin (NaN # ps) = nanmin ps"
| "nanmin (Num v # ps) = (case nanmin ps of NaN \<Rightarrow> Num v | Num w \<Rightarrow> Num (min v w))"

fun nanmax :: "'p::linorder float list \<Rightarrow> 'p float" where
  "nanmax [] = NaN"
| "nanmax (NaN # ps) = nanmax ps"
| "nanmax (Num v # ps) = (case nanmax ps of NaN \<Rightarrow> Num v | Num w \<Rightarrow> Num (max v w))"

text \<open>
  \<open>Series.argmin()\<close> and \<open>Series.argmax()\<close>: the position of the first occurrence of the
  minimum (maximum) among the entries that are not NaN. The source calls them only after
  the comparison of the minimum (maximum) with a threshold has succeeded, hence on a series
  with a number in it.
\<close>

fun index_of :: "'a \<Rightarrow> 'a list \<Rightarrow> nat" where
  "index_of x [] = 0"
| "index_of x (y # ys) = (if x = y then 0 else Suc (index_of x ys))"

definition argmin :: "'p::linorder float list \<Rightarrow> nat" where
  "argmin ps = index_of (nanmin ps) ps"

definition argmax :: "'p::linorder float list \<Rightarrow> nat" where
  "argmax ps = index_of (nanmax ps) ps"

subsection \<open>The data and the fits\<close>

text \<open>
  \<open>sm.OLS(y, D).fit()\<close> regresses \<open>y\<close> on the columns of the design \<open>D\<close> it is given and
  on nothing else: a constant is a regressor like any other, which the caller has to put into
  the design (\<open>sm.add_constant\<close>). A design is the list of its regressors.
\<close>

datatype 'n regressor = Column 'n | Intercept

text \<open>
  The environment of a call:
  \<^item> \<open>frame\<close>: the column names of the frame \<open>X\<close>. The names are the keys of the frame,
    no name occurs twice (a frame that has two columns under one name is not in the model;
    there the series \<open>model.pvalues\<close> has two entries under the name).
  \<^item> \<open>ols\<close>: the series \<open>sm.OLS(y, D).fit().pvalues\<close> for a design \<open>D\<close>, one p-value
    for each regressor; \<open>None\<close> when the fit raises.
  \<^item> \<open>slot\<close>: the order in which Python iterates over the set
    \<open>set(X.columns) - set(included)\<close>, given as a sorting key that may depend on \<open>included\<close>.
  \<^item> \<open>formats\<close>: whether \<open>'{:30}'.format(name)\<close> returns for a name. It does for strings and
    numbers; for \<open>None\<close> or a tuple it raises \<open>TypeError\<close>.
\<close>

record ('n, 'p) env =
  frame :: "'n dlist"
  ols :: "'n regressor list \<Rightarrow> ('n regressor \<Rightarrow> 'p float) option"
  slot :: "'n list \<Rightarrow> 'n \<Rightarrow> nat"
  formats :: "'n \<Rightarrow> bool"

definition columns :: "('n, 'p) env \<Rightarrow> 'n list" where
  "columns E = list_of_dlist (frame E)"

text \<open>
  The exceptions: \<open>KeyError\<close> of a column lookup, \<open>TypeError\<close> of the format of a printed
  line, and \<open>FitError\<close> for whatever the fit raises.
\<close>

datatype error = KeyError | FitError | TypeError

text \<open>
  \<open>pd.DataFrame(X[cols])\<close>: the columns named by \<open>cols\<close>, in this order, and no other
  regressor. \<open>X[cols]\<close> raises \<open>KeyError\<close> when a name is not a column; then the fit is not
  reached. The p-values are read by column name.
\<close>

definition design :: "'n list \<Rightarrow> 'n regressor list" where
  "design cols = map Column cols"

definition fit_pvalues :: "('n, 'p) env \<Rightarrow> 'n list \<Rightarrow> error + ('n \<Rightarrow> 'p float)" where
  "fit_pvalues E cols =
     (if \<not> set cols \<subseteq> set (columns E) then Inl KeyError
      else case ols E (design cols) of
             None \<Rightarrow> Inl FitError
           | Some pv \<Rightarrow> Inr (\<lambda>c. pv (Column c)))"

text \<open>\<open>excluded = list(set(X.columns)-set(included))\<close>\<close>

definition excluded_of :: "('n, 'p) env \<Rightarrow> 'n list \<Rightarrow> 'n list" where
  "excluded_of E included =
     sort_key (slot E included) (remdups (filter (\<lambda>c. c \<notin> set included) (columns E)))"

text \<open>
  The \<open>for new_column in excluded\<close> loop: one fit per candidate, on \<open>included+[new_column]\<close>,
  keeping the p-value of the candidate (one number, since the frame has no name twice). The
  first fit that raises ends the call.
\<close>

fun new_pvals :: "('n, 'p) env \<Rightarrow> 'n list \<Rightarrow> 'n list \<Rightarrow> error + 'p float list" where
  "new_pvals E included [] = Inr []"
| "new_pvals E included (new_column # rest) =
     (case fit_pvalues E (included @ [new_column]) of
        Inl e \<Rightarrow> Inl e
      | Inr pv \<Rightarrow>
          (case new_pvals E included rest of
             Inl e \<Rightarrow> Inl e
           | Inr ps \<Rightarrow> Inr (pv new_column # ps)))"

subsection \<open>The state: list objects, printed lines\<close>

text \<open>
  \<open>included\<close> is a list object that the loop mutates (\<open>append\<close>, \<open>remove\<close>), and
  \<open>initial_list\<close> is a list object of the caller's (or the shared default \<open>[]\<close>). The store
  maps addresses to list objects; addresses below \<open>nxt\<close> are in use. \<open>out\<close> is what has
  been printed. \<open>hist\<close> is a ghost copy of the same events that does not depend on
  \<open>verbose\<close>.
\<close>

datatype ('n, 'p) event = Add 'n "'p float" | Drop 'n "'p float"

record ('n, 'p) state =
  heap :: "nat \<Rightarrow> 'n list"
  nxt :: nat
  out :: "('n, 'p) event list"
  hist :: "('n, 'p) event list"

fun feature :: "('n, 'p) event \<Rightarrow> 'n" where
  "feature (Add f p) = f"
| "feature (Drop f p) = f"

text \<open>The state after an event whose line has been printed, or was not asked for.\<close>

definition emitted :: "bool \<Rightarrow> ('n, 'p) event \<Rightarrow> ('n, 'p) state \<Rightarrow> ('n, 'p) state" where
  "emitted verbose ev s =
     s\<lparr>out := (if verbose then out s @ [ev] else out s), hist := hist s @ [ev]\<rparr>"

text \<open>
  \<open>if verbose: print('Add  {:30} with p-value {:.6}'.format(best_feature, best_pval))\<close>, and
  the same for \<open>Drop\<close>. The format raises for a name that does not take the width; then
  nothing is printed. The list has been changed before, and the history records that.
\<close>

definition emit ::
  "('n, 'p) env \<Rightarrow> bool \<Rightarrow> ('n, 'p) event \<Rightarrow> ('n, 'p) state
     \<Rightarrow> (error \<times> ('n, 'p) state) + ('n, 'p) state" where
  "emit E verbose ev s =
     (if verbose \<and> \<not> formats E (feature ev)
      then Inl (TypeError, s\<lparr>hist := hist s @ [ev]\<rparr>)
      else Inr (emitted verbose ev s))"

definition list_append :: "nat \<Rightarrow> 'n \<Rightarrow> ('n, 'p) state \<Rightarrow> ('n, 'p) state" where
  "list_append r x s = s\<lparr>heap := (heap s)(r := heap s r @ [x])\<rparr>"

definition list_remove :: "nat \<Rightarrow> 'n \<Rightarrow> ('n, 'p) state \<Rightarrow> ('n, 'p) state" where
  "list_remove r x s = s\<lparr>heap := (heap s)(r := remove1 x (heap s r))\<rparr>"

text \<open>\<open>list(initial_list)\<close>: a new list object with the same elements.\<close>

definition list_copy :: "nat \<Rightarrow> ('n, 'p) state \<Rightarrow> nat \<times> ('n, 'p) state" where
  "list_copy a s = (nxt s, s\<lparr>heap := (heap s)(nxt s := heap s a), nxt := Suc (nxt s)\<rparr>)"

subsection \<open>One pass of the loop\<close>

text \<open>
  The forward step. \<open>r\<close> is the address of \<open>included\<close>. The result is the flag \<open>changed\<close>
  and the state, or an exception (of a fit, or of the print) with the state in which it is
  raised.
\<close>

definition forward_step ::
  "('n, 'p::linorder) env \<Rightarrow> nat \<Rightarrow> 'p float \<Rightarrow> bool \<Rightarrow> ('n, 'p) state
     \<Rightarrow> (error \<times> ('n, 'p) state) + (bool \<times> ('n, 'p) state)" where
  "forward_step E r threshold_in verbose s =
     (let included = heap s r;
          excluded = excluded_of E included
      in case new_pvals E included excluded of
           Inl e \<Rightarrow> Inl (e, s)
         | Inr new_pval \<Rightarrow>
             (let best_pval = nanmin new_pval
              in if flt best_pval threshold_in
                 then (let best_feature = excluded ! argmin new_pval
                       in case emit E verbose (Add best_feature best_pval)
                                 (list_append r best_feature s) of
                            Inl es \<Rightarrow> Inl es
                          | Inr s' \<Rightarrow> Inr (True, s'))
                 else Inr (False, s)))"

text \<open>The backward step, from the flag and the state the forward step left.\<close>

definition backward_step ::
  "('n, 'p::linorder) env \<Rightarrow> nat \<Rightarrow> 'p float \<Rightarrow> bool \<Rightarrow> bool \<times> ('n, 'p) state
     \<Rightarrow> (error \<times> ('n, 'p) state) + (bool \<times> ('n, 'p) state)" where
  "backward_step E r threshold_out verbose cs =
     (let changed = fst cs; s = snd cs; included = heap s r
      in case fit_pvalues E included of
           Inl e \<Rightarrow> Inl (e, s)
         | Inr pv \<Rightarrow>
             (let pvalues = map pv included;
                  worst_pval = nanmax pvalues
              in if fgt worst_pval threshold_out
                 then (let worst_feature = included ! argmax pvalues
                       in case emit E verbose (Drop worst_feature worst_pval)
                                 (list_remove r worst_feature s) of
                            Inl es \<Rightarrow> Inl es
                          | Inr s' \<Rightarrow> Inr (True, s'))
                 else Inr (changed, s)))"

definition pass ::
  "('n, 'p::linorder) env \<Rightarrow> nat \<Rightarrow> 'p float \<Rightarrow> 'p float \<Rightarrow> bool \<Rightarrow> ('n, 'p) state
     \<Rightarrow> (error \<times> ('n, 'p) state) + (bool \<times> ('n, 'p) state)" where
  "pass E r threshold_in threshold_out verbose s =
     (case forward_step E r threshold_in verbose s of
        Inl es \<Rightarrow> Inl es
      | Inr cs \<Rightarrow> backward_step E r threshold_out verbose cs)"

subsection \<open>The loop and the function\<close>

text \<open>
  \<open>while True: ... if not changed: break\<close>. Nothing bounds the number of passes, so the
  loop is a partial function: \<open>None\<close> is a call that never returns, \<open>Some (Inl (e, s))\<close>
  one that raises \<open>e\<close> in state \<open>s\<close>, \<open>Some (Inr s)\<close> one that leaves the loop in state \<open>s\<close>.
\<close>

partial_function (option) loop ::
  "('n, 'p::linorder) env \<Rightarrow> nat \<Rightarrow> 'p float \<Rightarrow> 'p float \<Rightarrow> bool \<Rightarrow> ('n, 'p) state
     \<Rightarrow> ((error \<times> ('n, 'p) state) + ('n, 'p) state) option" where
  "loop E r threshold_in threshold_out verbose s =
     (case pass E r threshold_in threshold_out verbose s of
        Inl es \<Rightarrow> Some (Inl es)
      | Inr cs \<Rightarrow>
          if fst cs then loop E r threshold_in threshold_out verbose (snd cs)
          else Some (Inr (snd cs)))"

text \<open>
  \<open>stepwise_selection(X, y, initial_list, threshold_in, threshold_out, verbose)\<close>, with
  \<open>initial_list\<close> the address of the caller's list. It returns the address of \<open>included\<close>
  together with the final state.
\<close>

definition stepwise_selection ::
  "('n, 'p::linorder) env \<Rightarrow> nat \<Rightarrow> 'p float \<Rightarrow> 'p float \<Rightarrow> bool \<Rightarrow> ('n, 'p) state
     \<Rightarrow> ((error \<times> ('n, 'p) state) + (nat \<times> ('n, 'p) state)) option" where
  "stepwise_selection E initial_list threshold_in threshold_out verbose s =
     (case list_copy initial_list s of
        (included, s0) \<Rightarrow>
          (case loop E included threshold_in threshold_out verbose s0 of
             None \<Rightarrow> None
           | Some (Inl es) \<Rightarrow> Some (Inl es)
           | Some (Inr s') \<Rightarrow> Some (Inr (included, s'))))"

subsection \<open>Notions used in the statements\<close>

text \<open>The invariant of \<open>included\<close>: names of columns of \<open>X\<close>, none of them twice.\<close>

definition valid :: "('n, 'p) env \<Rightarrow> 'n list \<Rightarrow> bool" where
  "valid E included \<longleftrightarrow> distinct included \<and> set included \<subseteq> set (columns E)"

text \<open>
  What an event does to a list, and the features a sequence of events has added, in the
  order of their addition.
\<close>

fun apply_event :: "'n list \<Rightarrow> ('n, 'p) event \<Rightarrow> 'n list" where
  "apply_event xs (Add f p) = xs @ [f]"
| "apply_event xs (Drop f p) = remove1 f xs"

fun additions :: "('n, 'p) event list \<Rightarrow> 'n list" where
  "additions [] = []"
| "additions (Add f p # evs) = f # additions evs"
| "additions (Drop f p # evs) = additions evs"

text \<open>\<open>s'\<close> comes from \<open>s\<close> by events that are in the history and were applied to the list at \<open>r\<close>.\<close>

definition replays :: "nat \<Rightarrow> ('n, 'p) state \<Rightarrow> ('n, 'p) state \<Rightarrow> bool" where
  "replays r s s' \<longleftrightarrow>
     (\<exists>evs. hist s' = hist s @ evs \<and> heap s' r = foldl apply_event (heap s r) evs)"

text \<open>No list object other than the one at \<open>r\<close> differs, and nothing was allocated.\<close>

definition same_except :: "nat \<Rightarrow> ('n, 'p) state \<Rightarrow> ('n, 'p) state \<Rightarrow> bool" where
  "same_except r s s' \<longleftrightarrow> nxt s' = nxt s \<and> (\<forall>b. b \<noteq> r \<longrightarrow> heap s' b = heap s b)"

subsection \<open>Example frames\<close>

text \<open>
  A frame with an informative column \<open>a\<close> and a noise column \<open>b\<close>: in every fit the
  p-value of \<open>a\<close> is \<open>0.001\<close> and that of \<open>b\<close> is \<open>0.5\<close>. \<open>env_ab2\<close> has the same
  p-values for \<open>a\<close> and \<open>b\<close> and differs on every design with a constant. \<open>env_empty\<close> and
  \<open>env_fail\<close> are frames without columns; the fit on the empty design returns in the first
  and raises in the second, as it does in \<open>statsmodels\<close>.
\<close>

definition env_ab :: "(string, real) env" where
  "env_ab = \<lparr>frame = Dlist [''a'', ''b''],
             ols = (\<lambda>d. Some (\<lambda>x. if x = Column ''a'' then Num (1 / 1000) else Num (1 / 2))),
             slot = (\<lambda>included c. 0),
             formats = (\<lambda>c. True)\<rparr>"

definition env_ab2 :: "(string, real) env" where
  "env_ab2 = \<lparr>frame = Dlist [''a'', ''b''],
              ols = (\<lambda>d. if Intercept \<in> set d then None
                         else Some (\<lambda>x. if x = Column ''a'' then Num (1 / 1000)
                                         else if x = Column ''b'' then Num (1 / 2) else NaN)),
              slot = (\<lambda>included c. 0),
              formats = (\<lambda>c. True)\<rparr>"

definition env_empty :: "(string, real) env" where
  "env_empty = \<lparr>frame = Dlist [], ols = (\<lambda>d. Some (\<lambda>x. NaN)), slot = (\<lambda>included c. 0),
                formats = (\<lambda>c. True)\<rparr>"

definition env_fail :: "(string, real) env" where
  "env_fail = \<lparr>frame = Dlist [], ols = (\<lambda>d. None), slot = (\<lambda>included c. 0),
               formats = (\<lambda>c. True)\<rparr>"

text \<open>
  A table of p-values on the same two columns under which the loop goes round:
  \<open>a\<close> alone is significant, \<open>b\<close> alone is not, and together \<open>b\<close> is and \<open>a\<close> is not.
\<close>

definition env_cycle :: "(string, real) env" where
  "env_cycle = \<lparr>frame = Dlist [''a'', ''b''],
                ols = (\<lambda>d. Some (\<lambda>x.
                         if Column ''a'' \<in> set d \<and> Column ''b'' \<in> set d
                         then (if x = Column ''a'' then Num (9 / 10) else Num (1 / 1000))
                         else (if x = Column ''a'' then Num (1 / 1000) else Num (1 / 2)))),
                slot = (\<lambda>included c. 0),
                formats = (\<lambda>c. True)\<rparr>"

text \<open>
  A frame whose one column has the name \<open>None\<close>, which the format of the printed line does
  not take, and the states of a call on it.
\<close>

definition env_none :: "(string option, real) env" where
  "env_none = \<lparr>frame = Dlist [None], ols = (\<lambda>d. Some (\<lambda>x. Num (1 / 1000))),
               slot = (\<lambda>included c. 0), formats = (\<lambda>c. c \<noteq> None)\<rparr>"

definition sn0 :: "(string option, real) state" where
  "sn0 = \<lparr>heap = (\<lambda>a. []), nxt = 1, out = [], hist = []\<rparr>"

definition sn1 :: "(string option, real) state" where
  "sn1 = \<lparr>heap = (\<lambda>a. [])(1 := [None]), nxt = 2, out = [],
          hist = [Add None (Num (1 / 1000))]\<rparr>"

text \<open>
  States. The caller's list object is at address \<open>0\<close>: empty in \<open>st0\<close>, \<open>[a]\<close> in
  \<open>st_a0\<close>, \<open>[b]\<close> in \<open>st_b\<close>, \<open>[b, a]\<close> in \<open>st_ba\<close>. The other states are those the
  calls below go through.
\<close>

definition st0 :: "(string, real) state" where
  "st0 = \<lparr>heap = (\<lambda>a. []), nxt = 1, out = [], hist = []\<rparr>"

definition st1 :: "(string, real) state" where
  "st1 = \<lparr>heap = (\<lambda>a. [])(1 := []), nxt = 2, out = [], hist = []\<rparr>"

definition st_a :: "(string, real) state" where
  "st_a = \<lparr>heap = (\<lambda>a. [])(1 := [''a'']), nxt = 2,
           out = [Add ''a'' (Num (1 / 1000))], hist = [Add ''a'' (Num (1 / 1000))]\<rparr>"

definition st_a0 :: "(string, real) state" where
  "st_a0 = \<lparr>heap = (\<lambda>a. [])(0 := [''a'']), nxt = 1, out = [], hist = []\<rparr>"

definition st_a1 :: "(string, real) state" where
  "st_a1 = \<lparr>heap = (\<lambda>a. [])(0 := [''a''], 1 := [''a'']), nxt = 2, out = [], hist = []\<rparr>"

definition st_b :: "(string, real) state" where
  "st_b = \<lparr>heap = (\<lambda>a. [])(0 := [''b'']), nxt = 1, out = [], hist = []\<rparr>"

definition st_b2 :: "(string, real) state" where
  "st_b2 = \<lparr>heap = (\<lambda>a. [])(0 := [''b''], 1 := [''a'']), nxt = 2,
            out = [Add ''a'' (Num (1 / 1000)), Drop ''b'' (Num (1 / 2))],
            hist = [Add ''a'' (Num (1 / 1000)), Drop ''b'' (Num (1 / 2))]\<rparr>"

definition st_ba :: "(string, real) state" where
  "st_ba = \<lparr>heap = (\<lambda>a. [])(0 := [''b'', ''a'']), nxt = 1, out = [], hist = []\<rparr>"

definition st_ba1 :: "(string, real) state" where
  "st_ba1 = \<lparr>heap = (\<lambda>a. [])(0 := [''b'', ''a''], 1 := [''b'', ''a'']), nxt = 2,
             out = [], hist = []\<rparr>"

definition st_ba2 :: "(string, real) state" where
  "st_ba2 = \<lparr>heap = (\<lambda>a. [])(0 := [''b'', ''a''], 1 := [''a'']), nxt = 2,
             out = [Drop ''b'' (Num (1 / 2))], hist = [Drop ''b'' (Num (1 / 2))]\<rparr>"

section \<open>Basic facts\<close>

subsection \<open>Reductions, positions, candidates\<close>

lemma nanmin_NaN_iff: "nanmin ps = NaN \<longleftrightarrow> (\<forall>p \<in> set ps. p = NaN)"
  by (induction ps rule: nanmin.induct) (auto split: float.splits)

lemma nanmin_Num:
  "nanmin ps = Num m \<Longrightarrow> Num m \<in> set ps \<and> (\<forall>v. Num v \<in> set ps \<longrightarrow> m \<le> v)"
  by (induction ps arbitrary: m rule: nanmin.induct)
     (auto split: float.splits simp: nanmin_NaN_iff min_def intro: order_trans)

lemma nanmax_NaN_iff: "nanmax ps = NaN \<longleftrightarrow> (\<forall>p \<in> set ps. p = NaN)"
  by (induction ps rule: nanmax.induct) (auto split: float.splits)

lemma nanmax_Num:
  "nanmax ps = Num m \<Longrightarrow> Num m \<in> set ps \<and> (\<forall>v. Num v \<in> set ps \<longrightarrow> v \<le> m)"
  apply (induction ps arbitrary: m rule: nanmax.induct)
    apply (auto split: float.splits simp: nanmax_NaN_iff max_def intro: order_trans)
  apply (meson linear order_trans)
  done

lemma index_of_less: "x \<in> set xs \<Longrightarrow> index_of x xs < length xs"
  by (induction xs) auto

lemma index_of_nth: "x \<in> set xs \<Longrightarrow> xs ! index_of x xs = x"
  by (induction xs) auto

lemma index_of_first: "i < index_of x xs \<Longrightarrow> xs ! i \<noteq> x"
  by (induction xs arbitrary: i) (auto simp: nth_Cons split: nat.splits if_splits)

lemma flt_Num_iff: "flt p t \<longleftrightarrow> (\<exists>a b. p = Num a \<and> t = Num b \<and> a < b)"
  by (cases p; cases t) auto

lemma fgt_Num_iff: "fgt p t \<longleftrightarrow> (\<exists>a b. p = Num a \<and> t = Num b \<and> b < a)"
  by (cases p; cases t) auto

text \<open>No entry is below a threshold that the minimum is not below.\<close>

lemma not_flt_nanmin: "\<not> flt (nanmin ps) t \<Longrightarrow> p \<in> set ps \<Longrightarrow> \<not> flt p t"
  by (cases "nanmin ps") (auto simp: flt_Num_iff nanmin_NaN_iff dest!: nanmin_Num)

lemma not_fgt_nanmax: "\<not> fgt (nanmax ps) t \<Longrightarrow> p \<in> set ps \<Longrightarrow> \<not> fgt p t"
  by (cases "nanmax ps") (auto simp: fgt_Num_iff nanmax_NaN_iff dest!: nanmax_Num)

lemma flt_nanmin_argmin:
  assumes "flt (nanmin ps) t"
  shows "argmin ps < length ps" and "ps ! argmin ps = nanmin ps"
proof -
  from assms obtain m where m: "nanmin ps = Num m" by (auto simp: flt_Num_iff)
  then have "Num m \<in> set ps" by (simp add: nanmin_Num)
  with m show "argmin ps < length ps" and "ps ! argmin ps = nanmin ps"
    by (simp_all add: argmin_def index_of_less index_of_nth)
qed

lemma fgt_nanmax_argmax:
  assumes "fgt (nanmax ps) t"
  shows "argmax ps < length ps" and "ps ! argmax ps = nanmax ps"
proof -
  from assms obtain m where m: "nanmax ps = Num m" by (auto simp: fgt_Num_iff)
  then have "Num m \<in> set ps" by (simp add: nanmax_Num)
  with m show "argmax ps < length ps" and "ps ! argmax ps = nanmax ps"
    by (simp_all add: argmax_def index_of_less index_of_nth)
qed

lemma set_excluded_of: "set (excluded_of E included) = set (columns E) - set included"
  by (auto simp: excluded_of_def)

lemma distinct_excluded_of: "distinct (excluded_of E included)"
  by (simp add: excluded_of_def)

lemma new_pvals_length: "new_pvals E included ex = Inr ps \<Longrightarrow> length ps = length ex"
  by (induction ex arbitrary: ps) (auto split: sum.splits)

lemma new_pvals_nth:
  "new_pvals E included ex = Inr ps \<Longrightarrow> i < length ex \<Longrightarrow>
     \<exists>pv. fit_pvalues E (included @ [ex ! i]) = Inr pv \<and> ps ! i = pv (ex ! i)"
  by (induction ex arbitrary: ps i) (auto split: sum.splits simp: nth_Cons split: nat.splits)

lemma new_pvals_mem:
  "new_pvals E included ex = Inr ps \<Longrightarrow> c \<in> set ex \<Longrightarrow>
     \<exists>pv. fit_pvalues E (included @ [c]) = Inr pv \<and> pv c \<in> set ps"
  by (induction ex arbitrary: ps) (auto split: sum.splits)

lemma loop_rule:
  assumes run: "loop E r tin tout vb s = Some res"
    and init: "I s"
    and step: "\<And>s s'. I s \<Longrightarrow> pass E r tin tout vb s = Inr (True, s') \<Longrightarrow> I s'"
  shows "\<exists>s0. I s0 \<and> (case res of Inl e \<Rightarrow> pass E r tin tout vb s0 = Inl e
                         | Inr s' \<Rightarrow> pass E r tin tout vb s0 = Inr (False, s'))"
proof -
  define Q where "Q = (\<lambda>res. \<exists>s0. I s0 \<and> (case res of Inl e \<Rightarrow> pass E r tin tout vb s0 = Inl e
                         | Inr s' \<Rightarrow> pass E r tin tout vb s0 = Inr (False, s')))"
  define P where "P = (\<lambda>E' r' tin' tout' vb' s res.
     E' = E \<and> r' = r \<and> tin' = tin \<and> tout' = tout \<and> vb' = vb \<and> I s \<longrightarrow> Q res)"
  have "P E r tin tout vb s res"
  proof (rule loop.raw_induct[where P = P, OF _ run])
    fix lp E1 r1 tin1 tout1 vb1 s1 res1
    assume IH: "\<And>E' r' tin' tout' vb' s res.
                  lp E' r' tin' tout' vb' s = Some res \<Longrightarrow> P E' r' tin' tout' vb' s res"
      and body: "(case pass E1 r1 tin1 tout1 vb1 s1 of
                    Inl es \<Rightarrow> Some (Inl es)
                  | Inr cs \<Rightarrow> if fst cs then lp E1 r1 tin1 tout1 vb1 (snd cs)
                              else Some (Inr (snd cs))) = Some res1"
    show "P E1 r1 tin1 tout1 vb1 s1 res1"
      unfolding P_def
    proof (intro impI, elim conjE)
      assume eqs: "E1 = E" "r1 = r" "tin1 = tin" "tout1 = tout" "vb1 = vb" and I: "I s1"
      show "Q res1"
      proof (cases "pass E r tin tout vb s1")
        case (Inl e)
        with body eqs have "res1 = Inl e" by simp
        with Inl I show ?thesis unfolding Q_def by auto
      next
        case (Inr cs)
        obtain c s2 where cs: "cs = (c, s2)" by (cases cs)
        show ?thesis
        proof (cases c)
          case True
          with Inr cs body eqs have "lp E r tin tout vb s2 = Some res1" by simp
          from IH[OF this] have "I s2 \<longrightarrow> Q res1" by (simp add: P_def)
          moreover from True Inr cs I have "I s2" by (auto intro: step)
          ultimately show ?thesis by simp
        next
          case False
          with Inr cs body eqs have "res1 = Inr s2" by simp
          with False Inr cs I show ?thesis unfolding Q_def by auto
        qed
      qed
    qed
  qed
  with init show ?thesis by (simp add: P_def Q_def)
qed

subsection \<open>Steps, passes, the loop\<close>

lemma stepwise_selection_Inr:
  "stepwise_selection E a tin tout vb s = Some (Inr (r, s')) \<longleftrightarrow>
     r = nxt s \<and>
     loop E (nxt s) tin tout vb (s\<lparr>heap := (heap s)(nxt s := heap s a), nxt := Suc (nxt s)\<rparr>)
       = Some (Inr s')"
  by (auto simp: stepwise_selection_def list_copy_def split: option.splits sum.splits)

lemma stepwise_selection_Inl:
  "stepwise_selection E a tin tout vb s = Some (Inl e) \<longleftrightarrow>
     loop E (nxt s) tin tout vb (s\<lparr>heap := (heap s)(nxt s := heap s a), nxt := Suc (nxt s)\<rparr>)
       = Some (Inl e)"
  by (auto simp: stepwise_selection_def list_copy_def split: option.splits sum.splits)

lemma forward_step_cases:
  assumes "forward_step E r tin vb s = Inr (c, s1)"
  obtains (keep) ps where "new_pvals E (heap s r) (excluded_of E (heap s r)) = Inr ps"
      "\<not> flt (nanmin ps) tin" "c = False" "s1 = s"
  | (add) ps where "new_pvals E (heap s r) (excluded_of E (heap s r)) = Inr ps"
      "flt (nanmin ps) tin" "c = True"
      "s1 = emitted vb (Add (excluded_of E (heap s r) ! argmin ps) (nanmin ps))
              (list_append r (excluded_of E (heap s r) ! argmin ps) s)"
  using assms by (auto simp: forward_step_def emit_def Let_def split: sum.splits if_splits)

lemma backward_step_cases:
  assumes "backward_step E r tout vb (c, s) = Inr (c', s1)"
  obtains (keep) pv where "fit_pvalues E (heap s r) = Inr pv"
      "\<not> fgt (nanmax (map pv (heap s r))) tout" "c' = c" "s1 = s"
  | (drop) pv where "fit_pvalues E (heap s r) = Inr pv"
      "fgt (nanmax (map pv (heap s r))) tout" "c' = True"
      "s1 = emitted vb (Drop (heap s r ! argmax (map pv (heap s r))) (nanmax (map pv (heap s r))))
              (list_remove r (heap s r ! argmax (map pv (heap s r))) s)"
  using assms by (auto simp: backward_step_def emit_def Let_def split: sum.splits if_splits)

lemma pass_Inr:
  "pass E r tin tout vb s = Inr cs' \<longleftrightarrow>
     (\<exists>cs. forward_step E r tin vb s = Inr cs \<and> backward_step E r tout vb cs = Inr cs')"
  by (auto simp: pass_def split: sum.splits)

lemma pass_unchanged:
  assumes "pass E r tin tout vb s = Inr (False, s')"
  shows "s' = s"
    and "\<exists>ps. new_pvals E (heap s r) (excluded_of E (heap s r)) = Inr ps \<and> \<not> flt (nanmin ps) tin"
    and "\<exists>pv. fit_pvalues E (heap s r) = Inr pv \<and> \<not> fgt (nanmax (map pv (heap s r))) tout"
proof -
  from assms obtain c s1 where f: "forward_step E r tin vb s = Inr (c, s1)"
    and b: "backward_step E r tout vb (c, s1) = Inr (False, s')"
    by (auto simp: pass_Inr)
  from b have b': "c = False \<and> s' = s1 \<and>
     (\<exists>pv. fit_pvalues E (heap s1 r) = Inr pv \<and> \<not> fgt (nanmax (map pv (heap s1 r))) tout)"
    by (cases rule: backward_step_cases) auto
  with f have f': "s1 = s \<and>
     (\<exists>ps. new_pvals E (heap s r) (excluded_of E (heap s r)) = Inr ps \<and> \<not> flt (nanmin ps) tin)"
    by (cases rule: forward_step_cases) auto
  from b' f' show "s' = s"
    and "\<exists>ps. new_pvals E (heap s r) (excluded_of E (heap s r)) = Inr ps \<and> \<not> flt (nanmin ps) tin"
    and "\<exists>pv. fit_pvalues E (heap s r) = Inr pv \<and> \<not> fgt (nanmax (map pv (heap s r))) tout"
    by auto
qed

lemma loop_exit:
  assumes "loop E r tin tout vb s = Some (Inr s')"
  shows "pass E r tin tout vb s' = Inr (False, s')"
proof -
  from loop_rule[OF assms, of "\<lambda>_. True"]
  obtain s0 where "pass E r tin tout vb s0 = Inr (False, s')" by auto
  with pass_unchanged(1)[OF this] show ?thesis by simp
qed

lemma heap_emitted [simp]: "heap (emitted vb ev s) = heap s"
  and nxt_emitted [simp]: "nxt (emitted vb ev s) = nxt s"
  and hist_emitted [simp]: "hist (emitted vb ev s) = hist s @ [ev]"
  by (simp_all add: emitted_def)

lemma heap_list_append [simp]: "heap (list_append r x s) = (heap s)(r := heap s r @ [x])"
  and nxt_list_append [simp]: "nxt (list_append r x s) = nxt s"
  and hist_list_append [simp]: "hist (list_append r x s) = hist s"
  by (simp_all add: list_append_def)

lemma heap_list_remove [simp]: "heap (list_remove r x s) = (heap s)(r := remove1 x (heap s r))"
  and nxt_list_remove [simp]: "nxt (list_remove r x s) = nxt s"
  and hist_list_remove [simp]: "hist (list_remove r x s) = hist s"
  by (simp_all add: list_remove_def)

text \<open>The feature the forward step appends is an excluded column with the least p-value.\<close>

lemma forward_step_add:
  assumes ps: "new_pvals E inc (excluded_of E inc) = Inr ps" and lt: "flt (nanmin ps) tin"
  shows "argmin ps < length (excluded_of E inc)"
    and "excluded_of E inc ! argmin ps \<in> set (columns E) - set inc"
proof -
  from flt_nanmin_argmin(1)[OF lt] new_pvals_length[OF ps]
  show *: "argmin ps < length (excluded_of E inc)" by simp
  then have "excluded_of E inc ! argmin ps \<in> set (excluded_of E inc)" by simp
  then show "excluded_of E inc ! argmin ps \<in> set (columns E) - set inc"
    by (simp only: set_excluded_of)
qed

lemma backward_step_drop:
  assumes gt: "fgt (nanmax (map pv inc)) tout"
  shows "argmax (map pv inc) < length inc"
    and "pv (inc ! argmax (map pv inc)) = nanmax (map pv inc)"
  using fgt_nanmax_argmax[OF gt] by simp_all

lemma nanmin_least: "p \<in> set ps \<Longrightarrow> \<not> flt p (nanmin ps)"
  by (cases "nanmin ps"; cases p) (auto dest!: nanmin_Num)

lemma nanmax_greatest: "p \<in> set ps \<Longrightarrow> \<not> fgt p (nanmax ps)"
  by (cases "nanmax ps"; cases p) (auto dest!: nanmax_Num)

lemma flt_irrefl [simp]: "\<not> flt t t" and fgt_irrefl [simp]: "\<not> fgt t t"
  by (cases t; simp)+

lemma nanmin_mem: "nanmin ps = NaN \<or> nanmin ps \<in> set ps"
  by (cases "nanmin ps") (auto dest: nanmin_Num)

lemma nanmax_mem: "nanmax ps = NaN \<or> nanmax ps \<in> set ps"
  by (cases "nanmax ps") (auto dest: nanmax_Num)

subsection \<open>The invariant of the included list\<close>

lemma forward_step_valid:
  assumes "forward_step E r tin vb s = Inr (c, s1)" and "valid E (heap s r)"
  shows "valid E (heap s1 r)"
  using assms(1)
proof (cases rule: forward_step_cases)
  case (keep ps)
  with assms(2) show ?thesis by simp
next
  case (add ps)
  from forward_step_add(2)[OF add(1,2)] assms(2) add(4) show ?thesis
    by (auto simp: valid_def)
qed

lemma backward_step_valid:
  assumes "backward_step E r tout vb (c, s) = Inr (c', s1)" and "valid E (heap s r)"
  shows "valid E (heap s1 r)"
  using assms(1)
proof (cases rule: backward_step_cases)
  case (keep pv)
  with assms(2) show ?thesis by simp
next
  case (drop pv)
  with assms(2) show ?thesis
    by (auto simp: valid_def dest: notin_set_remove1 simp: set_remove1_eq)
qed

lemma pass_valid:
  assumes "pass E r tin tout vb s = Inr (c, s')" and "valid E (heap s r)"
  shows "valid E (heap s' r)"
proof -
  from assms(1) obtain c1 s1 where "forward_step E r tin vb s = Inr (c1, s1)"
    and "backward_step E r tout vb (c1, s1) = Inr (c, s')"
    by (auto simp: pass_Inr)
  with assms(2) show ?thesis
    by (blast intro: forward_step_valid backward_step_valid)
qed

lemma loop_valid:
  assumes "loop E r tin tout vb s = Some (Inr s')" and "valid E (heap s r)"
  shows "valid E (heap s' r)"
proof -
  from loop_rule[OF assms(1), of "\<lambda>s. valid E (heap s r)"] assms(2)
  obtain s0 where "valid E (heap s0 r)" "pass E r tin tout vb s0 = Inr (False, s')"
    by (auto intro: pass_valid)
  then show ?thesis by (rule pass_valid[rotated])
qed

subsection \<open>The history replays the list\<close>

lemma additions_append: "additions (evs @ evs') = additions evs @ additions evs'"
  by (induction evs rule: additions.induct) simp_all

lemma subseq_remove1: "subseq (remove1 x xs) xs"
  by (induction xs) auto

lemma replay_split:
  "\<exists>I A. foldl apply_event init evs = I @ A \<and> subseq I init \<and> subseq A (additions evs)"
proof (induction evs rule: rev_induct)
  case Nil
  have "foldl apply_event init [] = init @ []" by simp
  then show ?case by (metis additions.simps(1) subseq_order.order_refl)
next
  case (snoc ev evs)
  then obtain I A where IA: "foldl apply_event init evs = I @ A" "subseq I init"
    "subseq A (additions evs)" by blast
  show ?case
  proof (cases ev)
    case (Add f p)
    with IA have "foldl apply_event init (evs @ [ev]) = I @ (A @ [f])"
      and "subseq (A @ [f]) (additions (evs @ [ev]))"
      by (simp_all add: additions_append)
    with IA(2) show ?thesis by blast
  next
    case (Drop f p)
    show ?thesis
    proof (cases "f \<in> set I")
      case True
      with Drop IA have "foldl apply_event init (evs @ [ev]) = remove1 f I @ A"
        by (simp add: remove1_append)
      moreover have "subseq (remove1 f I) init"
        using subseq_remove1 IA(2) by (rule subseq_order.order_trans)
      moreover from Drop IA(3) have "subseq A (additions (evs @ [ev]))"
        by (simp add: additions_append)
      ultimately show ?thesis by blast
    next
      case False
      with Drop IA have "foldl apply_event init (evs @ [ev]) = I @ remove1 f A"
        by (simp add: remove1_append)
      moreover have "subseq (remove1 f A) (additions evs)"
        using subseq_remove1 IA(3) by (rule subseq_order.order_trans)
      then have "subseq (remove1 f A) (additions (evs @ [ev]))"
        using Drop by (simp add: additions_append)
      ultimately show ?thesis using IA(2) by blast
    qed
  qed
qed

lemma replays_refl: "replays r s s"
  by (simp add: replays_def)

lemma replays_trans: "replays r s s1 \<Longrightarrow> replays r s1 s2 \<Longrightarrow> replays r s s2"
  by (auto simp: replays_def)

lemma forward_step_replays:
  assumes "forward_step E r tin vb s = Inr (c, s1)"
  shows "replays r s s1"
  using assms
proof (cases rule: forward_step_cases)
  case (keep ps)
  then show ?thesis by (simp add: replays_refl)
next
  case (add ps)
  then show ?thesis
    unfolding replays_def
    by (intro exI[of _ "[Add (excluded_of E (heap s r) ! argmin ps) (nanmin ps)]"]) simp
qed

lemma backward_step_replays:
  assumes "backward_step E r tout vb (c, s) = Inr (c', s1)"
  shows "replays r s s1"
  using assms
proof (cases rule: backward_step_cases)
  case (keep pv)
  then show ?thesis by (simp add: replays_refl)
next
  case (drop pv)
  then show ?thesis
    unfolding replays_def
    by (intro exI[of _ "[Drop (heap s r ! argmax (map pv (heap s r)))
                              (nanmax (map pv (heap s r)))]"]) simp
qed

lemma pass_replays: "pass E r tin tout vb s = Inr (c, s') \<Longrightarrow> replays r s s'"
  by (auto simp: pass_Inr intro: replays_trans forward_step_replays backward_step_replays)

lemma loop_replays:
  assumes "loop E r tin tout vb s = Some (Inr s')"
  shows "replays r s s'"
proof -
  from loop_rule[OF assms, of "replays r s"]
  obtain s0 where "replays r s s0" "pass E r tin tout vb s0 = Inr (False, s')"
    by (auto intro: replays_refl replays_trans pass_replays)
  then show ?thesis by (blast intro: replays_trans pass_replays)
qed

subsection \<open>Other list objects\<close>

lemma same_except_refl: "same_except r s s"
  by (simp add: same_except_def)

lemma same_except_trans: "same_except r s s1 \<Longrightarrow> same_except r s1 s2 \<Longrightarrow> same_except r s s2"
  by (simp add: same_except_def)

lemma forward_step_raises:
  "forward_step E r tin vb s = Inl (e, s1) \<Longrightarrow> same_except r s s1"
  by (auto simp: forward_step_def emit_def Let_def same_except_def
           split: sum.splits if_splits)

lemma backward_step_raises:
  "backward_step E r tout vb (c, s) = Inl (e, s1) \<Longrightarrow> same_except r s s1"
  by (auto simp: backward_step_def emit_def Let_def same_except_def
           split: sum.splits if_splits)

lemma forward_step_frame:
  assumes "forward_step E r tin vb s = Inr (c, s1)"
  shows "same_except r s s1"
  using assms by (cases rule: forward_step_cases) (simp_all add: same_except_def)

lemma backward_step_frame:
  assumes "backward_step E r tout vb (c, s) = Inr (c', s1)"
  shows "same_except r s s1"
  using assms by (cases rule: backward_step_cases) (simp_all add: same_except_def)

lemma pass_frame: "pass E r tin tout vb s = Inr (c, s') \<Longrightarrow> same_except r s s'"
  by (auto simp: pass_Inr intro: same_except_trans forward_step_frame backward_step_frame)

lemma pass_Inl:
  "pass E r tin tout vb s = Inl es \<longleftrightarrow>
     forward_step E r tin vb s = Inl es \<or>
     (\<exists>cs. forward_step E r tin vb s = Inr cs \<and> backward_step E r tout vb cs = Inl es)"
  by (auto simp: pass_def split: sum.splits)

lemma pass_raises_frame:
  assumes "pass E r tin tout vb s = Inl (e, s')"
  shows "same_except r s s'"
proof -
  from assms consider (f) "forward_step E r tin vb s = Inl (e, s')"
    | (b) c s1 where "forward_step E r tin vb s = Inr (c, s1)"
        "backward_step E r tout vb (c, s1) = Inl (e, s')"
    by (auto simp: pass_Inl)
  then show ?thesis
  proof cases
    case f
    then show ?thesis by (rule forward_step_raises)
  next
    case b
    from forward_step_frame[OF b(1)] backward_step_raises[OF b(2)]
    show ?thesis by (rule same_except_trans)
  qed
qed

lemma loop_frame:
  assumes "loop E r tin tout vb s = Some res"
  shows "case res of Inl (e, s') \<Rightarrow> same_except r s s' | Inr s' \<Rightarrow> same_except r s s'"
proof -
  from loop_rule[OF assms, of "same_except r s"]
  obtain s0 where s0: "same_except r s s0"
    and res: "case res of Inl es \<Rightarrow> pass E r tin tout vb s0 = Inl es
                        | Inr s' \<Rightarrow> pass E r tin tout vb s0 = Inr (False, s')"
    by (auto intro: same_except_refl same_except_trans pass_frame)
  show ?thesis
  proof (cases res)
    case (Inl es)
    obtain e s' where "es = (e, s')" by (cases es)
    with Inl res s0 show ?thesis
      by (auto intro: same_except_trans pass_raises_frame)
  next
    case (Inr s')
    with res s0 show ?thesis
      by (auto intro: same_except_trans pass_frame)
  qed
qed

subsection \<open>Passes at a fixed point\<close>

lemma new_pvals_none_below:
  assumes "\<forall>c \<in> set ex. \<exists>pv. fit_pvalues E (inc @ [c]) = Inr pv \<and> \<not> flt (pv c) tin"
  shows "\<exists>ps. new_pvals E inc ex = Inr ps \<and> (\<forall>p \<in> set ps. \<not> flt p tin)"
  using assms by (induction ex) auto

lemma forward_step_fixed_point:
  assumes "\<forall>c \<in> set (columns E) - set (heap s r).
             \<exists>pv. fit_pvalues E (heap s r @ [c]) = Inr pv \<and> \<not> flt (pv c) tin"
  shows "forward_step E r tin vb s = Inr (False, s)"
proof -
  from assms have "\<forall>c \<in> set (excluded_of E (heap s r)).
      \<exists>pv. fit_pvalues E (heap s r @ [c]) = Inr pv \<and> \<not> flt (pv c) tin"
    by (simp only: set_excluded_of)
  from new_pvals_none_below[OF this] obtain ps where
    ps: "new_pvals E (heap s r) (excluded_of E (heap s r)) = Inr ps" "\<forall>p \<in> set ps. \<not> flt p tin"
    by blast
  from ps(2) nanmin_mem[of ps] have "\<not> flt (nanmin ps) tin" by auto
  with ps(1) show ?thesis by (simp add: forward_step_def)
qed

lemma backward_step_fixed_point:
  assumes "fit_pvalues E (heap s r) = Inr pv" and "\<forall>c \<in> set (heap s r). \<not> fgt (pv c) tout"
  shows "backward_step E r tout vb (c, s) = Inr (c, s)"
proof -
  from assms(2) nanmax_mem[of "map pv (heap s r)"]
  have "\<not> fgt (nanmax (map pv (heap s r))) tout" by auto
  with assms(1) show ?thesis by (simp add: backward_step_def)
qed

lemma loop_fixed_point:
  assumes "\<forall>c \<in> set (columns E) - set (heap s r).
             \<exists>pv. fit_pvalues E (heap s r @ [c]) = Inr pv \<and> \<not> flt (pv c) tin"
    and "fit_pvalues E (heap s r) = Inr pv" and "\<forall>c \<in> set (heap s r). \<not> fgt (pv c) tout"
  shows "loop E r tin tout vb s = Some (Inr s)"
  by (subst loop.simps)
     (simp add: pass_def forward_step_fixed_point[OF assms(1)]
        backward_step_fixed_point[OF assms(2,3)])

subsection \<open>The fits a pass makes\<close>

lemma design_simps:
  "Intercept \<notin> set (design cols)"
  "design (cols @ [x]) = design cols @ [Column x]"
  "set (design cols) = Column ` set cols"
  by (auto simp: design_def)

lemma fit_pvalues_Inr:
  "fit_pvalues E cols = Inr pv \<longleftrightarrow>
     set cols \<subseteq> set (columns E) \<and>
     (\<exists>pv0. ols E (design cols) = Some pv0 \<and> pv = (\<lambda>c. pv0 (Column c)))"
  by (auto simp: fit_pvalues_def split: option.splits)

lemma new_pvals_ols:
  assumes "new_pvals E inc ex = Inr ps" and "i < length ex"
  shows "\<exists>pv. ols E (design (inc @ [ex ! i])) = Some pv \<and> ps ! i = pv (Column (ex ! i))"
  using new_pvals_nth[OF assms] by (auto simp: fit_pvalues_Inr)

lemma new_pvals_ols_mem:
  assumes "new_pvals E inc ex = Inr ps" and "x \<in> set ex"
  shows "\<exists>pv. ols E (design (inc @ [x])) = Some pv \<and> pv (Column x) \<in> set ps"
proof -
  from assms(2) obtain i where i: "i < length ex" "ex ! i = x"
    by (auto simp: in_set_conv_nth)
  from new_pvals_ols[OF assms(1) i(1)] i new_pvals_length[OF assms(1)]
  show ?thesis by (auto simp: in_set_conv_nth)
qed

lemma forward_step_fits:
  assumes "forward_step E r tin vb s = Inr (c, s1)"
  shows "\<forall>x \<in> set (columns E) - set (heap s r).
           \<exists>pv. ols E (design (heap s r @ [x])) = Some pv"
    and "c \<longleftrightarrow> (\<exists>x \<in> set (columns E) - set (heap s r).
                 \<exists>pv. ols E (design (heap s r @ [x])) = Some pv \<and> flt (pv (Column x)) tin)"
    and "c \<longrightarrow> (\<exists>f pv. f \<in> set (columns E) - set (heap s r) \<and>
                 heap s1 r = heap s r @ [f] \<and>
                 ols E (design (heap s r @ [f])) = Some pv \<and> flt (pv (Column f)) tin \<and>
                 (\<forall>x \<in> set (columns E) - set (heap s r).
                    \<forall>pv'. ols E (design (heap s r @ [x])) = Some pv' \<longrightarrow>
                          \<not> flt (pv' (Column x)) (pv (Column f))))"
    and "\<not> c \<longrightarrow> s1 = s"
proof -
  let ?inc = "heap s r" and ?ex = "excluded_of E (heap s r)"
  from assms obtain ps where ps: "new_pvals E ?inc ?ex = Inr ps"
    and c: "c \<longleftrightarrow> flt (nanmin ps) tin"
    and keep: "\<not> c \<longrightarrow> s1 = s"
    and add: "c \<longrightarrow> heap s1 r = ?inc @ [?ex ! argmin ps]"
    by (cases rule: forward_step_cases) auto
  have mem: "\<exists>pv. ols E (design (?inc @ [x])) = Some pv \<and> pv (Column x) \<in> set ps"
    if "x \<in> set (columns E) - set ?inc" for x
    using that new_pvals_ols_mem[OF ps, of x] by (simp add: set_excluded_of)
  show "\<forall>x \<in> set (columns E) - set ?inc. \<exists>pv. ols E (design (?inc @ [x])) = Some pv"
    using mem by blast
  show "\<not> c \<longrightarrow> s1 = s" by (rule keep)
  have best: "\<exists>f pv. f \<in> set (columns E) - set ?inc \<and> heap s1 r = ?inc @ [f] \<and>
                 ols E (design (?inc @ [f])) = Some pv \<and> flt (pv (Column f)) tin \<and>
                 pv (Column f) = nanmin ps" if c
  proof -
    from that c have lt: "flt (nanmin ps) tin" by simp
    let ?i = "argmin ps"
    have i: "?i < length ?ex" by (rule forward_step_add(1)[OF ps lt])
    from new_pvals_ols[OF ps i] obtain pv where
      pv: "ols E (design (?inc @ [?ex ! ?i])) = Some pv" "ps ! ?i = pv (Column (?ex ! ?i))"
      by blast
    from flt_nanmin_argmin(2)[OF lt] pv(2) have "pv (Column (?ex ! ?i)) = nanmin ps" by simp
    with pv(1) lt add that forward_step_add(2)[OF ps lt] show ?thesis by auto
  qed
  show "c \<longleftrightarrow> (\<exists>x \<in> set (columns E) - set ?inc.
                 \<exists>pv. ols E (design (?inc @ [x])) = Some pv \<and> flt (pv (Column x)) tin)"
  proof
    assume c
    from best[OF this] show "\<exists>x \<in> set (columns E) - set ?inc.
                 \<exists>pv. ols E (design (?inc @ [x])) = Some pv \<and> flt (pv (Column x)) tin"
      by blast
  next
    assume "\<exists>x \<in> set (columns E) - set ?inc.
                 \<exists>pv. ols E (design (?inc @ [x])) = Some pv \<and> flt (pv (Column x)) tin"
    then obtain x pv where x: "x \<in> set (columns E) - set ?inc"
      "ols E (design (?inc @ [x])) = Some pv" "flt (pv (Column x)) tin" by blast
    from mem[OF x(1)] x(2) have "pv (Column x) \<in> set ps" by auto
    with x(3) not_flt_nanmin[of ps tin] c show c by blast
  qed
  show "c \<longrightarrow> (\<exists>f pv. f \<in> set (columns E) - set ?inc \<and>
                 heap s1 r = ?inc @ [f] \<and>
                 ols E (design (?inc @ [f])) = Some pv \<and> flt (pv (Column f)) tin \<and>
                 (\<forall>x \<in> set (columns E) - set ?inc.
                    \<forall>pv'. ols E (design (?inc @ [x])) = Some pv' \<longrightarrow>
                          \<not> flt (pv' (Column x)) (pv (Column f))))"
  proof
    assume c
    from best[OF this] obtain f pv where f: "f \<in> set (columns E) - set ?inc"
      "heap s1 r = ?inc @ [f]" "ols E (design (?inc @ [f])) = Some pv"
      "flt (pv (Column f)) tin" "pv (Column f) = nanmin ps" by blast
    have "\<not> flt (pv' (Column x)) (pv (Column f))"
      if "x \<in> set (columns E) - set ?inc" "ols E (design (?inc @ [x])) = Some pv'" for x pv'
    proof -
      from mem[OF that(1)] that(2) have "pv' (Column x) \<in> set ps" by auto
      then show ?thesis unfolding f(5) by (rule nanmin_least)
    qed
    with f show "\<exists>f pv. f \<in> set (columns E) - set ?inc \<and>
                 heap s1 r = ?inc @ [f] \<and>
                 ols E (design (?inc @ [f])) = Some pv \<and> flt (pv (Column f)) tin \<and>
                 (\<forall>x \<in> set (columns E) - set ?inc.
                    \<forall>pv'. ols E (design (?inc @ [x])) = Some pv' \<longrightarrow>
                          \<not> flt (pv' (Column x)) (pv (Column f)))"
      by blast
  qed
qed

lemma remove1_neq: "w \<in> set xs \<Longrightarrow> remove1 w xs \<noteq> xs"
  by (metis length_remove1 length_pos_if_in_set diff_less zero_less_one less_irrefl)

lemma backward_step_fits:
  assumes "backward_step E r tout vb (c0, s) = Inr (c', s2)"
  shows "\<exists>pv. ols E (design (heap s r)) = Some pv \<and>
           (heap s2 r \<noteq> heap s r \<longleftrightarrow> (\<exists>x \<in> set (heap s r). fgt (pv (Column x)) tout)) \<and>
           (heap s2 r \<noteq> heap s r \<longrightarrow>
              (\<exists>w \<in> set (heap s r). heap s2 r = remove1 w (heap s r) \<and>
                 fgt (pv (Column w)) tout \<and>
                 (\<forall>x \<in> set (heap s r). \<not> fgt (pv (Column x)) (pv (Column w))))) \<and>
           (heap s2 r = heap s r \<longrightarrow> s2 = s \<and> c' = c0)"
  using assms
proof (cases rule: backward_step_cases)
  case (keep pv)
  from keep(1) obtain pv0 where pv0: "ols E (design (heap s r)) = Some pv0"
    "pv = (\<lambda>c. pv0 (Column c))" by (auto simp: fit_pvalues_Inr)
  from not_fgt_nanmax[OF keep(2)] have "\<forall>x \<in> set (heap s r). \<not> fgt (pv x) tout" by auto
  with pv0 keep(3,4) show ?thesis by auto
next
  case (drop pv)
  let ?inc = "heap s r"
  let ?w = "?inc ! argmax (map pv ?inc)"
  from drop(1) obtain pv0 where pv0: "ols E (design ?inc) = Some pv0"
    "pv = (\<lambda>c. pv0 (Column c))" by (auto simp: fit_pvalues_Inr)
  note d = backward_step_drop[OF drop(2)]
  from d(1) have w: "?w \<in> set ?inc" by simp
  have h: "heap s2 r = remove1 ?w ?inc" by (simp add: drop(4))
  with w have ne: "heap s2 r \<noteq> ?inc" by (simp add: remove1_neq)
  have gt: "fgt (pv ?w) tout" using drop(2) d(2) by simp
  have mx: "\<forall>x \<in> set ?inc. \<not> fgt (pv x) (pv ?w)"
    by (simp add: d(2) nanmax_greatest)
  from pv0 w h ne gt mx show ?thesis
    by (intro exI[of _ pv0]) auto
qed

subsection \<open>The fits a pass depends on\<close>

lemma fit_pvalues_cong:
  assumes "columns E' = columns E"
    and "rel_option (\<lambda>pv pv'. \<forall>c \<in> set cs. pv (Column c) = pv' (Column c))
           (ols E (design cols)) (ols E' (design cols))"
  shows "map_sum id (\<lambda>pv. map pv cs) (fit_pvalues E' cols)
       = map_sum id (\<lambda>pv. map pv cs) (fit_pvalues E cols)"
  using assms
  by (cases "ols E (design cols)"; cases "ols E' (design cols)") (auto simp: fit_pvalues_def)

lemma new_pvals_cong:
  assumes "columns E' = columns E"
    and "\<forall>c \<in> set ex. rel_option (\<lambda>pv pv'. pv (Column c) = pv' (Column c))
                         (ols E (design (inc @ [c]))) (ols E' (design (inc @ [c])))"
  shows "new_pvals E' inc ex = new_pvals E inc ex"
  using assms(2)
proof (induction ex)
  case Nil
  show ?case by simp
next
  case (Cons c ex)
  from Cons.prems have "rel_option (\<lambda>pv pv'. \<forall>x \<in> set [c]. pv (Column x) = pv' (Column x))
                         (ols E (design (inc @ [c]))) (ols E' (design (inc @ [c])))" by simp
  from fit_pvalues_cong[OF assms(1) this]
  have fit: "map_sum id (\<lambda>pv. pv c) (fit_pvalues E' (inc @ [c]))
           = map_sum id (\<lambda>pv. pv c) (fit_pvalues E (inc @ [c]))"
    by (cases "fit_pvalues E (inc @ [c])"; cases "fit_pvalues E' (inc @ [c])") auto
  from Cons have IH: "new_pvals E' inc ex = new_pvals E inc ex" by simp
  from fit show ?case
    by (cases "fit_pvalues E (inc @ [c])"; cases "fit_pvalues E' (inc @ [c])")
       (auto simp: IH split: sum.splits)
qed

lemma emit_cong: "formats E' = formats E \<Longrightarrow> emit E' = emit E"
  by (intro ext) (simp add: emit_def)

lemma forward_step_cong:
  assumes "columns E' = columns E" and "slot E' = slot E" and "formats E' = formats E"
    and "\<forall>c \<in> set (columns E) - set (heap s r).
           rel_option (\<lambda>pv pv'. pv (Column c) = pv' (Column c))
             (ols E (design (heap s r @ [c]))) (ols E' (design (heap s r @ [c])))"
  shows "forward_step E' r tin vb s = forward_step E r tin vb s"
proof -
  have ex: "excluded_of E' (heap s r) = excluded_of E (heap s r)"
    by (simp add: excluded_of_def assms)
  from assms(4) have "\<forall>c \<in> set (excluded_of E (heap s r)).
           rel_option (\<lambda>pv pv'. pv (Column c) = pv' (Column c))
             (ols E (design (heap s r @ [c]))) (ols E' (design (heap s r @ [c])))"
    by (simp only: set_excluded_of)
  from new_pvals_cong[OF assms(1) this]
  have np: "new_pvals E' (heap s r) (excluded_of E (heap s r))
          = new_pvals E (heap s r) (excluded_of E (heap s r))" .
  show ?thesis
    unfolding forward_step_def Let_def ex np emit_cong[OF assms(3)] ..
qed

lemma backward_step_cong:
  assumes "columns E' = columns E" and "formats E' = formats E"
    and "rel_option (\<lambda>pv pv'. \<forall>c \<in> set (heap s r). pv (Column c) = pv' (Column c))
           (ols E (design (heap s r))) (ols E' (design (heap s r)))"
  shows "backward_step E' r tout vb (c0, s) = backward_step E r tout vb (c0, s)"
proof -
  from fit_pvalues_cong[OF assms(1,3)]
  have "(case fit_pvalues E' (heap s r) of Inl e \<Rightarrow> Inl e | Inr pv \<Rightarrow> Inr (map pv (heap s r)))
      = (case fit_pvalues E (heap s r) of Inl e \<Rightarrow> Inl e | Inr pv \<Rightarrow> Inr (map pv (heap s r)))"
    by (cases "fit_pvalues E (heap s r)"; cases "fit_pvalues E' (heap s r)") auto
  then show ?thesis
    using emit_cong[OF assms(2)]
    by (cases "fit_pvalues E (heap s r)"; cases "fit_pvalues E' (heap s r)")
       (simp_all add: backward_step_def Let_def del: map_eq_conv)
qed

subsection \<open>The frame without columns\<close>

text \<open>
  What the call does on a frame without columns, from an empty initial list: the forward
  step changes nothing, the backward step fits on the empty design, and the call returns a
  new empty list or raises as that fit returns or raises.
\<close>

lemma empty_frame_call:
  assumes "columns E = []" and "heap s initial_list = []"
  shows "stepwise_selection E initial_list threshold_in threshold_out verbose s =
           (case ols E [] of
              None \<Rightarrow> Some (Inl (FitError, snd (list_copy initial_list s)))
            | Some pv \<Rightarrow> Some (Inr (list_copy initial_list s)))"
proof -
  let ?s0 = "s\<lparr>heap := (heap s)(nxt s := []), nxt := Suc (nxt s)\<rparr>"
  have ex: "excluded_of E (heap ?s0 (nxt s)) = []"
    using assms(1) by (simp add: excluded_of_def)
  show ?thesis
  proof (cases "ols E []")
    case None
    have "pass E (nxt s) threshold_in threshold_out verbose ?s0 = Inl (FitError, ?s0)"
      using None ex
      by (simp add: pass_def forward_step_def backward_step_def fit_pvalues_def design_def)
    then have "loop E (nxt s) threshold_in threshold_out verbose ?s0
                 = Some (Inl (FitError, ?s0))"
      by (subst loop.simps) simp
    with None assms(2) show ?thesis
      by (simp add: stepwise_selection_def list_copy_def)
  next
    case (Some pv)
    then have fit: "fit_pvalues E [] = Inr (\<lambda>c. pv (Column c))"
      by (simp add: fit_pvalues_def design_def)
    have "loop E (nxt s) threshold_in threshold_out verbose ?s0 = Some (Inr ?s0)"
      using assms(1) fit by (intro loop_fixed_point[where pv = "\<lambda>c. pv (Column c)"]) simp_all
    with Some assms(2) show ?thesis
      by (simp add: stepwise_selection_def list_copy_def)
  qed
qed

subsection \<open>Evaluation of the examples\<close>

lemmas eval_defs = stepwise_selection_def list_copy_def pass_def forward_step_def
  backward_step_def excluded_of_def fit_pvalues_def columns_def design_def emit_def emitted_def
  list_append_def list_remove_def argmin_def argmax_def Let_def

lemmas ex_defs = env_ab_def env_ab2_def env_empty_def env_fail_def
  st0_def st1_def st_a_def st_a0_def st_a1_def st_b_def st_b2_def st_ba_def st_ba1_def st_ba2_def

lemma copy_st0: "list_copy 0 st0 = (1, st1)"
  by (simp add: list_copy_def ex_defs)

lemma copy_st_ba: "list_copy 0 st_ba = (1, st_ba1)"
  by (simp add: list_copy_def ex_defs)

lemma run_ab:
  "stepwise_selection env_ab 0 (Num (1 / 100)) (Num (1 / 20)) True st0 = Some (Inr (1, st_a))"
  by (simp add: eval_defs loop.simps ex_defs)


lemma run_b:
  "stepwise_selection env_ab 0 (Num (1 / 100)) (Num (1 / 20)) True st_b = Some (Inr (1, st_b2))"
  by (simp add: eval_defs loop.simps ex_defs)

lemma run_ba:
  "stepwise_selection env_ab 0 (Num (1 / 100)) (Num (1 / 20)) True st_ba
     = Some (Inr (1, st_ba2))"
  by (simp add: eval_defs loop.simps ex_defs)

lemma run_fail:
  "stepwise_selection env_fail 0 (Num (1 / 100)) (Num (1 / 20)) True st0
     = Some (Inl (FitError, st1))"
  by (simp add: eval_defs loop.simps ex_defs)




lemma fwd_st1: "forward_step env_ab 1 (Num (1 / 100)) True st1 = Inr (True, st_a)"
  by (simp add: eval_defs ex_defs)

lemma bwd_st_a: "backward_step env_ab 1 (Num (1 / 20)) True (True, st_a) = Inr (True, st_a)"
  by (simp add: eval_defs ex_defs)

lemma fwd_st_ba1: "forward_step env_ab 1 (Num (1 / 100)) True st_ba1 = Inr (False, st_ba1)"
  by (simp add: eval_defs ex_defs)

lemma bwd_st_ba1:
  "backward_step env_ab 1 (Num (1 / 20)) True (False, st_ba1) = Inr (True, st_ba2)"
  by (simp add: eval_defs ex_defs)

lemma run_empty:
  "stepwise_selection env_empty 0 (Num (1 / 100)) (Num (1 / 20)) True st0 = Some (Inr (1, st1))"
  by (simp add: eval_defs loop.simps ex_defs)

text \<open>
  With \<open>verbose\<close> the call on the frame with the column \<open>None\<close> raises in the print, after
  the append; without, it returns.
\<close>

lemma run_none_verbose:
  "stepwise_selection env_none 0 (Num (1 / 100)) (Num (1 / 20)) True sn0
     = Some (Inl (TypeError, sn1))"
  by (simp add: eval_defs loop.simps env_none_def sn0_def sn1_def)

lemma run_none_quiet:
  "stepwise_selection env_none 0 (Num (1 / 100)) (Num (1 / 20)) False sn0
     = Some (Inr (1, sn1))"
  by (simp add: eval_defs loop.simps env_none_def sn0_def sn1_def)

subsection \<open>The loop has no bound of its own\<close>

text \<open>
  Under the table \<open>env_cycle\<close> the included list goes from \<open>[]\<close> to \<open>[a]\<close>, to \<open>[b]\<close>
  (\<open>b\<close> added, \<open>a\<close> dropped), and back to \<open>[]\<close>, in passes that all report a change,
  although \<open>threshold_in < threshold_out\<close>: the call never returns. The table is not
  one that least squares gives for any data (a column that adds nothing next to \<open>b\<close>,
  when \<open>b\<close> alone explains nothing, cannot be significant alone), so this is no run of the
  script. It shows that whether the loop stops is a property of the fits.
\<close>

lemma pass_cycle:
  assumes "heap s r \<in> {[], [''a''], [''b'']}"
  shows "\<exists>s'. pass env_cycle r (Num (1 / 100)) (Num (1 / 20)) vb s = Inr (True, s') \<and>
              heap s' r \<in> {[], [''a''], [''b'']}"
proof -
  from assms consider "heap s r = []" | "heap s r = [''a'']" | "heap s r = [''b'']" by auto
  then show ?thesis
    by cases
      (simp_all add: pass_def forward_step_def backward_step_def excluded_of_def
         fit_pvalues_def columns_def design_def emit_def argmin_def argmax_def Let_def
         env_cycle_def)
qed

lemma loop_may_cycle:
  assumes "heap s r = []"
  shows "loop env_cycle r (Num (1 / 100)) (Num (1 / 20)) vb s = None"
proof (rule ccontr)
  assume "loop env_cycle r (Num (1 / 100)) (Num (1 / 20)) vb s \<noteq> None"
  then obtain res where res: "loop env_cycle r (Num (1 / 100)) (Num (1 / 20)) vb s = Some res"
    by auto
  have "\<exists>s0. heap s0 r \<in> {[], [''a''], [''b'']} \<and>
          (case res of
             Inl es \<Rightarrow> pass env_cycle r (Num (1 / 100)) (Num (1 / 20)) vb s0 = Inl es
           | Inr t \<Rightarrow> pass env_cycle r (Num (1 / 100)) (Num (1 / 20)) vb s0 = Inr (False, t))"
  proof (rule loop_rule[OF res])
    show "heap s r \<in> {[], [''a''], [''b'']}" using assms by simp
  next
    fix t t'
    assume "heap t r \<in> {[], [''a''], [''b'']}"
      and "pass env_cycle r (Num (1 / 100)) (Num (1 / 20)) vb t = Inr (True, t')"
    with pass_cycle[of t r vb] show "heap t' r \<in> {[], [''a''], [''b'']}" by auto
  qed
  then obtain s0 where "heap s0 r \<in> {[], [''a''], [''b'']}"
    and "case res of
             Inl es \<Rightarrow> pass env_cycle r (Num (1 / 100)) (Num (1 / 20)) vb s0 = Inl es
           | Inr t \<Rightarrow> pass env_cycle r (Num (1 / 100)) (Num (1 / 20)) vb s0 = Inr (False, t)"
    by blast
  with pass_cycle[of s0 r vb] show False
    by (cases res) auto
qed

lemma stepwise_selection_may_cycle:
  "stepwise_selection env_cycle 0 (Num (1 / 100)) (Num (1 / 20)) True st0 = None"
  by (simp add: stepwise_selection_def list_copy_def loop_may_cycle st0_def)

section \<open>The claims\<close>

text \<open>
  C1. A call that returns, returns a local fixed point: the fit on exactly the returned list
  has no coefficient p-value strictly greater than \<open>threshold_out\<close>, and for every column of
  \<open>X\<close> that is not in the returned list, the fit on the returned list with that column
  appended gives the column a p-value that is not strictly less than \<open>threshold_in\<close>.
\<close>

theorem returned_list_is_fixed_point:
  assumes "stepwise_selection E initial_list threshold_in threshold_out verbose s
             = Some (Inr (included, s'))"
  shows "(\<exists>pv. fit_pvalues E (heap s' included) = Inr pv \<and>
               (\<forall>c \<in> set (heap s' included). \<not> fgt (pv c) threshold_out)) \<and>
         (\<forall>c \<in> set (columns E) - set (heap s' included).
            \<exists>pv. fit_pvalues E (heap s' included @ [c]) = Inr pv \<and>
                 \<not> flt (pv c) threshold_in)"
proof -
  let ?L = "heap s' included"
  from assms have "pass E included threshold_in threshold_out verbose s' = Inr (False, s')"
    by (auto simp: stepwise_selection_Inr dest: loop_exit)
  note fp = pass_unchanged(2,3)[OF this]
  from fp(2) obtain pv where pv: "fit_pvalues E ?L = Inr pv"
    and nd: "\<not> fgt (nanmax (map pv ?L)) threshold_out" by blast
  have bk: "\<forall>c \<in> set ?L. \<not> fgt (pv c) threshold_out"
    using not_fgt_nanmax[OF nd] by auto
  from fp(1) obtain ps where ps: "new_pvals E ?L (excluded_of E ?L) = Inr ps"
    and na: "\<not> flt (nanmin ps) threshold_in" by blast
  have forw: "\<exists>pv. fit_pvalues E (?L @ [c]) = Inr pv \<and> \<not> flt (pv c) threshold_in"
    if "c \<in> set (columns E) - set ?L" for c
  proof -
    from that have "c \<in> set (excluded_of E ?L)" by (simp add: set_excluded_of)
    from new_pvals_mem[OF ps this] obtain pv' where
      "fit_pvalues E (?L @ [c]) = Inr pv'" "pv' c \<in> set ps" by blast
    with not_flt_nanmin[OF na] show ?thesis by blast
  qed
  from pv bk forw show ?thesis by blast
qed

theorem returned_list_is_fixed_point_witness:
  "stepwise_selection env_ab 0 (Num (1 / 100)) (Num (1 / 20)) True st0 = Some (Inr (1, st_a)) \<and>
   (\<exists>pv. fit_pvalues env_ab (heap st_a 1) = Inr pv \<and> \<not> fgt (pv ''a'') (Num (1 / 20))) \<and>
   (\<exists>pv. fit_pvalues env_ab (heap st_a 1 @ [''b'']) = Inr pv \<and>
         \<not> flt (pv ''b'') (Num (1 / 100)))"
proof -
  have a: "''a'' \<in> set (heap st_a 1)"
    by (simp add: st_a_def)
  have b: "''b'' \<in> set (columns env_ab) - set (heap st_a 1)"
    by (simp add: st_a_def env_ab_def columns_def)
  from returned_list_is_fixed_point [OF run_ab] a b run_ab show ?thesis
    by blast
qed




text \<open>
  C4, as the code has it. When no excluded column has a p-value strictly below
  \<open>threshold_in\<close> in the fit on the initial list with that column appended, no member of the
  initial list has a p-value strictly above \<open>threshold_out\<close> in the fit on the initial list,
  and these fits return, the call returns after one pass a new list equal to the initial
  list, and prints nothing.
\<close>

theorem fixed_point_is_returned_unchanged:
  assumes "\<forall>c \<in> set (columns E) - set (heap s initial_list).
             \<exists>pv. fit_pvalues E (heap s initial_list @ [c]) = Inr pv \<and>
                  \<not> flt (pv c) threshold_in"
    and "fit_pvalues E (heap s initial_list) = Inr pv"
    and "\<forall>c \<in> set (heap s initial_list). \<not> fgt (pv c) threshold_out"
  shows "\<exists>s'. stepwise_selection E initial_list threshold_in threshold_out verbose s
                 = Some (Inr (nxt s, s')) \<and>
              heap s' (nxt s) = heap s initial_list \<and> hist s' = hist s \<and> out s' = out s"
proof -
  let ?s0 = "s\<lparr>heap := (heap s)(nxt s := heap s initial_list), nxt := Suc (nxt s)\<rparr>"
  have "loop E (nxt s) threshold_in threshold_out verbose ?s0 = Some (Inr ?s0)"
    using assms by (intro loop_fixed_point[where pv = pv]) simp_all
  then show ?thesis
    by (simp add: stepwise_selection_def list_copy_def)
qed

theorem fixed_point_is_returned_unchanged_witness:
  "(\<exists>pv. fit_pvalues env_ab (heap st_a0 0 @ [''b'']) = Inr pv \<and>
         \<not> flt (pv ''b'') (Num (1 / 100))) \<and>
   (\<exists>pv. fit_pvalues env_ab (heap st_a0 0) = Inr pv \<and> \<not> fgt (pv ''a'') (Num (1 / 20))) \<and>
   (\<exists>s'. stepwise_selection env_ab 0 (Num (1 / 100)) (Num (1 / 20)) True st_a0
            = Some (Inr (nxt st_a0, s')) \<and>
         heap s' (nxt st_a0) = heap st_a0 0 \<and> hist s' = hist st_a0 \<and> out s' = out st_a0)"
proof -
  let ?pv = "\<lambda>c. if c = ''a'' then Num (1 / 1000) else Num (1 / 2 :: real)"
  have h1: "\<forall>c \<in> set (columns env_ab) - set (heap st_a0 0).
              \<exists>pv. fit_pvalues env_ab (heap st_a0 0 @ [c]) = Inr pv \<and>
                   \<not> flt (pv c) (Num (1 / 100))"
    by (simp add: fit_pvalues_def columns_def design_def ex_defs)
  have h2: "fit_pvalues env_ab (heap st_a0 0) = Inr ?pv"
    by (simp add: fit_pvalues_def columns_def design_def ex_defs)
  have h3: "\<forall>c \<in> set (heap st_a0 0). \<not> fgt (?pv c) (Num (1 / 20))"
    by (simp add: ex_defs)
  have b: "''b'' \<in> set (columns env_ab) - set (heap st_a0 0)"
    and a: "''a'' \<in> set (heap st_a0 0)"
    by (simp_all add: columns_def ex_defs)
  from fixed_point_is_returned_unchanged [OF h1 h2 h3, of True] h1 h2 h3 a b
  show ?thesis by blast
qed

text \<open>
  C4, as the specification has it, does not hold: a call in which no forward step adds a
  feature can still change the list, by a backward step. From the initial list \<open>[b, a]\<close> the
  call on the example frame drops \<open>b\<close> and returns \<open>[a]\<close>, with no addition in its
  history.
\<close>

theorem backward_removal_counterexample:
  "stepwise_selection env_ab 0 (Num (1 / 100)) (Num (1 / 20)) True st_ba
     = Some (Inr (1, st_ba2)) \<and>
   additions (hist st_ba2) = [] \<and> heap st_ba2 1 \<noteq> heap st_ba 0"
  by (simp add: run_ba) (simp add: ex_defs)

text \<open>
  C5. From an initial list without duplicates whose names are columns of \<open>X\<close>, the returned
  list has no duplicates and only names of columns of \<open>X\<close>; and every forward step (an add)
  and every backward step (a remove) takes a list with this property to a list with this
  property.
\<close>

theorem included_stays_valid:
  "(valid E (heap s initial_list) \<longrightarrow>
      stepwise_selection E initial_list threshold_in threshold_out verbose s
        = Some (Inr (included, s')) \<longrightarrow>
      valid E (heap s' included)) \<and>
   (valid E (heap t r) \<longrightarrow> forward_step E r threshold_in verbose t = Inr (c, t1) \<longrightarrow>
      valid E (heap t1 r)) \<and>
   (valid E (heap t1 r) \<longrightarrow> backward_step E r threshold_out verbose (c, t1) = Inr (c', t2) \<longrightarrow>
      valid E (heap t2 r))"
proof (intro conjI impI)
  assume v: "valid E (heap s initial_list)"
    and run: "stepwise_selection E initial_list threshold_in threshold_out verbose s
                = Some (Inr (included, s'))"
  from run have r: "included = nxt s"
    and lp: "loop E (nxt s) threshold_in threshold_out verbose
               (s\<lparr>heap := (heap s)(nxt s := heap s initial_list), nxt := Suc (nxt s)\<rparr>)
             = Some (Inr s')"
    by (simp_all add: stepwise_selection_Inr)
  from loop_valid[OF lp] v r show "valid E (heap s' included)" by simp
qed (blast intro: forward_step_valid backward_step_valid)+

theorem included_stays_valid_witness:
  "valid env_ab (heap st_ba 0) \<and>
   stepwise_selection env_ab 0 (Num (1 / 100)) (Num (1 / 20)) True st_ba
     = Some (Inr (1, st_ba2)) \<and>
   valid env_ab (heap st_ba2 1) \<and>
   valid env_ab (heap st1 1) \<and>
   forward_step env_ab 1 (Num (1 / 100)) True st1 = Inr (True, st_a) \<and>
   valid env_ab (heap st_a 1) \<and>
   valid env_ab (heap st_ba1 1) \<and>
   backward_step env_ab 1 (Num (1 / 20)) True (False, st_ba1) = Inr (True, st_ba2)"
proof -
  have h1: "valid env_ab (heap st_ba 0)" and h2: "valid env_ab (heap st1 1)"
    and h3: "valid env_ab (heap st_ba1 1)"
    by (simp_all add: valid_def columns_def ex_defs)
  from included_stays_valid [of env_ab st_ba 0 "Num (1 / 100)" "Num (1 / 20)" True 1 st_ba2
      st1 1 True st_a True st_a]
    included_stays_valid [of env_ab st_ba 0 "Num (1 / 100)" "Num (1 / 20)" True 1 st_ba2
      st1 1 False st_ba1 True st_ba2]
    h1 h2 h3 run_ba fwd_st1 bwd_st_ba1
  show ?thesis by blast
qed

text \<open>
  C6. A call on a frame without columns, from an empty initial list, is meant to return the
  empty list: the forward step changes nothing, and the comment in the backward step
  (\<open># null if pvalues is empty\<close>) says that an empty included list changes nothing either.
  It does not: the backward step fits on the empty design before it looks at the p-values,
  that fit raises, and so does the call.
\<close>

theorem empty_frame_raises:
  "columns env_fail = [] \<and> heap st0 0 = [] \<and> list_copy 0 st0 = (1, st1) \<and>
   forward_step env_fail 1 (Num (1 / 100)) True st1 = Inr (False, st1) \<and>
   backward_step env_fail 1 (Num (1 / 20)) True (False, st1) = Inl (FitError, st1) \<and>
   stepwise_selection env_fail 0 (Num (1 / 100)) (Num (1 / 20)) True st0
     = Some (Inl (FitError, st1))"
  by (simp add: run_fail copy_st0) (simp add: eval_defs ex_defs)

text \<open>
  C7. The forward step appends a feature exactly when the least candidate p-value is
  strictly below \<open>threshold_in\<close>, and then it appends the first excluded feature with that
  least p-value; the backward step removes a feature exactly when the greatest p-value of
  the fit on the included list is strictly above \<open>threshold_out\<close>, and then it removes the
  first included feature with that greatest p-value. A least (greatest) p-value equal to the
  threshold changes nothing.
\<close>

theorem steps_follow_thresholds:
  "(forward_step E r threshold_in verbose s = Inr (c, s1) \<longrightarrow>
      (\<exists>ps. new_pvals E (heap s r) (excluded_of E (heap s r)) = Inr ps \<and>
            (if flt (nanmin ps) threshold_in
             then c \<and> (\<exists>i < length (excluded_of E (heap s r)).
                         heap s1 r = heap s r @ [excluded_of E (heap s r) ! i] \<and>
                         ps ! i = nanmin ps \<and>
                         (\<forall>j < length ps. \<not> flt (ps ! j) (ps ! i)) \<and>
                         (\<forall>j < i. ps ! j \<noteq> ps ! i))
             else \<not> c \<and> s1 = s) \<and>
            (nanmin ps = threshold_in \<longrightarrow> \<not> c \<and> s1 = s))) \<and>
   (backward_step E r threshold_out verbose (c0, s) = Inr (c', s2) \<longrightarrow>
      (\<exists>pv. fit_pvalues E (heap s r) = Inr pv \<and>
            (if fgt (nanmax (map pv (heap s r))) threshold_out
             then c' \<and> (\<exists>i < length (heap s r).
                          heap s2 r = remove1 (heap s r ! i) (heap s r) \<and>
                          pv (heap s r ! i) = nanmax (map pv (heap s r)) \<and>
                          (\<forall>j < length (heap s r). \<not> fgt (pv (heap s r ! j)) (pv (heap s r ! i))) \<and>
                          (\<forall>j < i. pv (heap s r ! j) \<noteq> pv (heap s r ! i)))
             else c' = c0 \<and> s2 = s) \<and>
            (nanmax (map pv (heap s r)) = threshold_out \<longrightarrow> c' = c0 \<and> s2 = s)))"
proof (intro conjI impI)
  let ?inc = "heap s r" and ?ex = "excluded_of E (heap s r)"
  assume f: "forward_step E r threshold_in verbose s = Inr (c, s1)"
  then show "\<exists>ps. new_pvals E ?inc ?ex = Inr ps \<and>
            (if flt (nanmin ps) threshold_in
             then c \<and> (\<exists>i < length ?ex.
                         heap s1 r = ?inc @ [?ex ! i] \<and>
                         ps ! i = nanmin ps \<and>
                         (\<forall>j < length ps. \<not> flt (ps ! j) (ps ! i)) \<and>
                         (\<forall>j < i. ps ! j \<noteq> ps ! i))
             else \<not> c \<and> s1 = s) \<and>
            (nanmin ps = threshold_in \<longrightarrow> \<not> c \<and> s1 = s)"
  proof (cases rule: forward_step_cases)
    case (keep ps)
    then show ?thesis by auto
  next
    case (add ps)
    let ?i = "argmin ps"
    have 1: "?i < length ?ex" by (rule forward_step_add(1)[OF add(1,2)])
    have 2: "ps ! ?i = nanmin ps" by (rule flt_nanmin_argmin(2)[OF add(2)])
    have 3: "\<forall>j < length ps. \<not> flt (ps ! j) (ps ! ?i)"
      by (simp add: 2 nanmin_least)
    have 4: "\<forall>j < ?i. ps ! j \<noteq> ps ! ?i"
      unfolding 2 by (auto simp: argmin_def dest: index_of_first)
    have 5: "heap s1 r = ?inc @ [?ex ! ?i]" by (simp add: add(4))
    have 6: "nanmin ps \<noteq> threshold_in" using add(2) by auto
    from add(1,2,3) 1 2 3 4 5 6 show ?thesis by auto
  qed
next
  let ?inc = "heap s r"
  assume b: "backward_step E r threshold_out verbose (c0, s) = Inr (c', s2)"
  then show "\<exists>pv. fit_pvalues E ?inc = Inr pv \<and>
            (if fgt (nanmax (map pv ?inc)) threshold_out
             then c' \<and> (\<exists>i < length ?inc.
                          heap s2 r = remove1 (?inc ! i) ?inc \<and>
                          pv (?inc ! i) = nanmax (map pv ?inc) \<and>
                          (\<forall>j < length ?inc. \<not> fgt (pv (?inc ! j)) (pv (?inc ! i))) \<and>
                          (\<forall>j < i. pv (?inc ! j) \<noteq> pv (?inc ! i)))
             else c' = c0 \<and> s2 = s) \<and>
            (nanmax (map pv ?inc) = threshold_out \<longrightarrow> c' = c0 \<and> s2 = s)"
  proof (cases rule: backward_step_cases)
    case (keep pv)
    then show ?thesis by auto
  next
    case (drop pv)
    let ?i = "argmax (map pv ?inc)"
    note d = backward_step_drop[OF drop(2)]
    have 3: "\<forall>j < length ?inc. \<not> fgt (pv (?inc ! j)) (pv (?inc ! ?i))"
      by (simp add: d(2) nanmax_greatest)
    have 4: "\<forall>j < ?i. pv (?inc ! j) \<noteq> pv (?inc ! ?i)"
    proof (intro allI impI)
      fix j assume j: "j < ?i"
      with d(1) have "j < length ?inc" by simp
      moreover from j have "map pv ?inc ! j \<noteq> nanmax (map pv ?inc)"
        by (auto simp: argmax_def dest: index_of_first)
      ultimately show "pv (?inc ! j) \<noteq> pv (?inc ! ?i)" by (simp add: d(2))
    qed
    have 5: "heap s2 r = remove1 (?inc ! ?i) ?inc" by (simp add: drop(4))
    have 6: "nanmax (map pv ?inc) \<noteq> threshold_out" using drop(2) by auto
    from drop(1,2,3) d 3 4 5 6 show ?thesis by auto
  qed
qed

theorem steps_follow_thresholds_witness:
  "forward_step env_ab 1 (Num (1 / 100)) True st1 = Inr (True, st_a) \<and>
   (\<exists>ps. new_pvals env_ab (heap st1 1) (excluded_of env_ab (heap st1 1)) = Inr ps \<and>
         flt (nanmin ps) (Num (1 / 100)) \<and>
         (\<exists>i < length (excluded_of env_ab (heap st1 1)).
            heap st_a 1 = heap st1 1 @ [excluded_of env_ab (heap st1 1) ! i] \<and>
            ps ! i = nanmin ps)) \<and>
   backward_step env_ab 1 (Num (1 / 20)) True (False, st_ba1) = Inr (True, st_ba2) \<and>
   (\<exists>pv. fit_pvalues env_ab (heap st_ba1 1) = Inr pv \<and>
         fgt (nanmax (map pv (heap st_ba1 1))) (Num (1 / 20)) \<and>
         (\<exists>i < length (heap st_ba1 1).
            heap st_ba2 1 = remove1 (heap st_ba1 1 ! i) (heap st_ba1 1) \<and>
            pv (heap st_ba1 1 ! i) = nanmax (map pv (heap st_ba1 1))))"
proof -
  note f = steps_follow_thresholds [of env_ab 1 "Num (1 / 100)" True st1 True st_a
      "Num (1 / 20)" True True st_a, THEN conjunct1, rule_format, OF fwd_st1]
  note b = steps_follow_thresholds [of env_ab 1 "Num (1 / 100)" True st_ba1 False st_ba1
      "Num (1 / 20)" False True st_ba2, THEN conjunct2, rule_format, OF bwd_st_ba1]
  from f have "\<exists>ps. new_pvals env_ab (heap st1 1) (excluded_of env_ab (heap st1 1)) = Inr ps \<and>
         flt (nanmin ps) (Num (1 / 100)) \<and>
         (\<exists>i < length (excluded_of env_ab (heap st1 1)).
            heap st_a 1 = heap st1 1 @ [excluded_of env_ab (heap st1 1) ! i] \<and>
            ps ! i = nanmin ps)"
    by (auto split: if_splits)
  moreover
  from b have "\<exists>pv. fit_pvalues env_ab (heap st_ba1 1) = Inr pv \<and>
         fgt (nanmax (map pv (heap st_ba1 1))) (Num (1 / 20)) \<and>
         (\<exists>i < length (heap st_ba1 1).
            heap st_ba2 1 = remove1 (heap st_ba1 1 ! i) (heap st_ba1 1) \<and>
            pv (heap st_ba1 1 ! i) = nanmax (map pv (heap st_ba1 1)))"
    by (auto split: if_splits)
  ultimately show ?thesis using fwd_st1 bwd_st_ba1 by blast
qed

text \<open>
  C8. The returned list is the initial list with the events of the call applied in order,
  an addition appending at the end and a removal deleting one occurrence in place. Hence it
  is a subsequence of the initial list followed by a subsequence of the additions in the
  order they were made; and a backward step leaves a subsequence of the list it found.
\<close>

theorem returned_order_is_insertion_order:
  "(stepwise_selection E initial_list threshold_in threshold_out verbose s
      = Some (Inr (included, s')) \<longrightarrow>
    (\<exists>evs. hist s' = hist s @ evs \<and>
           heap s' included = foldl apply_event (heap s initial_list) evs \<and>
           (\<exists>I A. heap s' included = I @ A \<and> subseq I (heap s initial_list) \<and>
                  subseq A (additions evs)))) \<and>
   (backward_step E r threshold_out verbose (c, t) = Inr (c', t') \<longrightarrow>
      subseq (heap t' r) (heap t r))"
proof (intro conjI impI)
  assume run: "stepwise_selection E initial_list threshold_in threshold_out verbose s
                = Some (Inr (included, s'))"
  let ?s0 = "s\<lparr>heap := (heap s)(nxt s := heap s initial_list), nxt := Suc (nxt s)\<rparr>"
  from run have r: "included = nxt s"
    and lp: "loop E (nxt s) threshold_in threshold_out verbose ?s0 = Some (Inr s')"
    by (simp_all add: stepwise_selection_Inr)
  from loop_replays[OF lp] r obtain evs where
    evs: "hist s' = hist s @ evs" "heap s' included = foldl apply_event (heap s initial_list) evs"
    by (auto simp: replays_def)
  from replay_split[of "heap s initial_list" evs] evs
  show "\<exists>evs. hist s' = hist s @ evs \<and>
           heap s' included = foldl apply_event (heap s initial_list) evs \<and>
           (\<exists>I A. heap s' included = I @ A \<and> subseq I (heap s initial_list) \<and>
                  subseq A (additions evs))"
    by auto
next
  assume "backward_step E r threshold_out verbose (c, t) = Inr (c', t')"
  then show "subseq (heap t' r) (heap t r)"
    by (cases rule: backward_step_cases) (simp_all add: subseq_remove1)
qed

theorem returned_order_is_insertion_order_witness:
  "stepwise_selection env_ab 0 (Num (1 / 100)) (Num (1 / 20)) True st_b
     = Some (Inr (1, st_b2)) \<and>
   (\<exists>evs. hist st_b2 = hist st_b @ evs \<and>
          heap st_b2 1 = foldl apply_event (heap st_b 0) evs \<and>
          (\<exists>I A. heap st_b2 1 = I @ A \<and> subseq I (heap st_b 0) \<and>
                 subseq A (additions evs))) \<and>
   backward_step env_ab 1 (Num (1 / 20)) True (False, st_ba1) = Inr (True, st_ba2) \<and>
   subseq (heap st_ba2 1) (heap st_ba1 1)"
  using returned_order_is_insertion_order [where E = env_ab and initial_list = 0
      and threshold_in = "Num (1 / 100)" and threshold_out = "Num (1 / 20)" and verbose = True
      and s = st_b and included = 1 and s' = st_b2 and r = 1 and c = False and t = st_ba1
      and c' = True and t' = st_ba2] run_b bwd_st_ba1
  by blast

text \<open>
  C9. The call works on a new list object: the returned address is fresh, hence not that of
  the argument, and every list object that existed before the call, the argument among
  them, is the same after the call, whether the call returns or raises. So an empty default
  list stays empty, and the next call that copies it starts from an empty list.
\<close>

theorem initial_list_is_not_mutated:
  assumes "initial_list < nxt s"
  shows "(stepwise_selection E initial_list threshold_in threshold_out verbose s
            = Some (Inr (included, s')) \<longrightarrow>
          included = nxt s \<and> included \<noteq> initial_list \<and>
          heap s' initial_list = heap s initial_list \<and>
          (\<forall>b < nxt s. heap s' b = heap s b) \<and>
          (heap s initial_list = [] \<longrightarrow>
             heap (snd (list_copy initial_list s')) (fst (list_copy initial_list s')) = [])) \<and>
         (stepwise_selection E initial_list threshold_in threshold_out verbose s
            = Some (Inl (e, s')) \<longrightarrow>
          heap s' initial_list = heap s initial_list \<and> (\<forall>b < nxt s. heap s' b = heap s b))"
proof -
  let ?s0 = "s\<lparr>heap := (heap s)(nxt s := heap s initial_list), nxt := Suc (nxt s)\<rparr>"
  have fr: "\<forall>b < nxt s. heap s' b = heap s b" if "same_except (nxt s) ?s0 s'"
    using that by (auto simp: same_except_def)
  have 1: "same_except (nxt s) ?s0 s'"
    if "stepwise_selection E initial_list threshold_in threshold_out verbose s
          = Some (Inr (included, s'))"
    using that loop_frame[of E "nxt s" threshold_in threshold_out verbose ?s0 "Inr s'"]
    by (simp add: stepwise_selection_Inr)
  have 2: "same_except (nxt s) ?s0 s'"
    if "stepwise_selection E initial_list threshold_in threshold_out verbose s
          = Some (Inl (e, s'))"
    using that loop_frame[of E "nxt s" threshold_in threshold_out verbose ?s0 "Inl (e, s')"]
    by (simp add: stepwise_selection_Inl)
  show ?thesis
    using assms fr[OF 1] fr[OF 2]
    by (auto simp: stepwise_selection_Inr list_copy_def)
qed

theorem initial_list_is_not_mutated_witness:
  "(0 :: nat) < nxt st_ba \<and>
   stepwise_selection env_ab 0 (Num (1 / 100)) (Num (1 / 20)) True st_ba
     = Some (Inr (1, st_ba2)) \<and>
   1 = nxt st_ba \<and> (1 :: nat) \<noteq> 0 \<and> heap st_ba2 0 = heap st_ba 0 \<and>
   (0 :: nat) < nxt st0 \<and> heap st0 0 = [] \<and>
   stepwise_selection env_ab 0 (Num (1 / 100)) (Num (1 / 20)) True st0
     = Some (Inr (1, st_a)) \<and>
   heap (snd (list_copy 0 st_a)) (fst (list_copy 0 st_a)) = [] \<and>
   stepwise_selection env_fail 0 (Num (1 / 100)) (Num (1 / 20)) True st0
     = Some (Inl (FitError, st1)) \<and>
   heap st1 0 = heap st0 0"
proof -
  have h1: "(0 :: nat) < nxt st_ba" and h2: "(0 :: nat) < nxt st0" and h3: "heap st0 0 = []"
    by (simp_all add: ex_defs)
  note a = initial_list_is_not_mutated [OF h1, where E = env_ab
      and threshold_in = "Num (1 / 100)" and threshold_out = "Num (1 / 20)" and verbose = True
      and included = 1 and s' = st_ba2]
  note b = initial_list_is_not_mutated [OF h2, where E = env_ab
      and threshold_in = "Num (1 / 100)" and threshold_out = "Num (1 / 20)" and verbose = True
      and included = 1 and s' = st_a]
  note c = initial_list_is_not_mutated [OF h2, where E = env_fail
      and threshold_in = "Num (1 / 100)" and threshold_out = "Num (1 / 20)" and verbose = True
      and e = FitError and s' = st1]
  from a run_ba h1 have 1: "1 = nxt st_ba \<and> heap st_ba2 0 = heap st_ba 0" by simp
  from b run_ab h3 have 2: "heap (snd (list_copy 0 st_a)) (fst (list_copy 0 st_a)) = []"
    by blast
  from c run_fail have 3: "heap st1 0 = heap st0 0" by blast
  from 1 2 3 h1 h2 h3 run_ba run_ab run_fail show ?thesis by simp
qed

text \<open>
  C10. Every fit is made on the design that consists of the columns of \<open>X\<close> named by the
  included list, in the forward step with the one candidate appended last, and of nothing
  else: no constant is among the regressors. A forward step that returns has fitted every
  excluded column in this way; it adds a feature exactly when one of these fits gives its
  candidate a p-value strictly below \<open>threshold_in\<close>, and the feature added has such a
  p-value, the least. A backward step that returns has fitted the included list; it removes
  a feature exactly when this fit gives an included column a p-value strictly above
  \<open>threshold_out\<close>, and the feature removed has such a p-value, the greatest. Nothing else
  of the fits takes part: two environments that agree on these p-values give the same
  steps, whatever they say of designs with a constant.
\<close>

theorem fits_are_on_included_columns:
  "(forward_step E r threshold_in verbose s = Inr (c, s1) \<longrightarrow>
      (\<forall>x \<in> set (columns E) - set (heap s r).
         \<exists>pv. ols E (design (heap s r @ [x])) = Some pv) \<and>
      (c \<longleftrightarrow> (\<exists>x \<in> set (columns E) - set (heap s r).
              \<exists>pv. ols E (design (heap s r @ [x])) = Some pv \<and>
                   flt (pv (Column x)) threshold_in)) \<and>
      (c \<longrightarrow> (\<exists>f pv. f \<in> set (columns E) - set (heap s r) \<and>
              heap s1 r = heap s r @ [f] \<and>
              ols E (design (heap s r @ [f])) = Some pv \<and>
              flt (pv (Column f)) threshold_in \<and>
              (\<forall>x \<in> set (columns E) - set (heap s r).
                 \<forall>pv'. ols E (design (heap s r @ [x])) = Some pv' \<longrightarrow>
                       \<not> flt (pv' (Column x)) (pv (Column f))))) \<and>
      (\<not> c \<longrightarrow> s1 = s)) \<and>
   (backward_step E r threshold_out verbose (c0, s) = Inr (c', s2) \<longrightarrow>
      (\<exists>pv. ols E (design (heap s r)) = Some pv \<and>
         (heap s2 r \<noteq> heap s r \<longleftrightarrow>
            (\<exists>x \<in> set (heap s r). fgt (pv (Column x)) threshold_out)) \<and>
         (heap s2 r \<noteq> heap s r \<longrightarrow>
            (\<exists>w \<in> set (heap s r). heap s2 r = remove1 w (heap s r) \<and>
               fgt (pv (Column w)) threshold_out \<and>
               (\<forall>x \<in> set (heap s r). \<not> fgt (pv (Column x)) (pv (Column w))))) \<and>
         (heap s2 r = heap s r \<longrightarrow> s2 = s \<and> c' = c0))) \<and>
   (Intercept \<notin> set (design cols) \<and> design (cols @ [x]) = design cols @ [Column x] \<and>
    set (design cols) = Column ` set cols) \<and>
   (columns E' = columns E \<and> slot E' = slot E \<and> formats E' = formats E \<longrightarrow>
      ((\<forall>c \<in> set (columns E) - set (heap s r).
          rel_option (\<lambda>pv pv'. pv (Column c) = pv' (Column c))
            (ols E (design (heap s r @ [c]))) (ols E' (design (heap s r @ [c])))) \<longrightarrow>
       forward_step E' r threshold_in verbose s = forward_step E r threshold_in verbose s) \<and>
      (rel_option (\<lambda>pv pv'. \<forall>c \<in> set (heap s r). pv (Column c) = pv' (Column c))
            (ols E (design (heap s r))) (ols E' (design (heap s r))) \<longrightarrow>
       backward_step E' r threshold_out verbose (c0, s)
         = backward_step E r threshold_out verbose (c0, s)))"
proof (intro conjI impI)
  assume f: "forward_step E r threshold_in verbose s = Inr (c, s1)"
  note ff = forward_step_fits[OF f]
  show "\<forall>x \<in> set (columns E) - set (heap s r).
         \<exists>pv. ols E (design (heap s r @ [x])) = Some pv"
    by (rule ff(1))
  show "c \<longleftrightarrow> (\<exists>x \<in> set (columns E) - set (heap s r).
              \<exists>pv. ols E (design (heap s r @ [x])) = Some pv \<and>
                   flt (pv (Column x)) threshold_in)"
    by (rule ff(2))
  show "\<exists>f pv. f \<in> set (columns E) - set (heap s r) \<and>
              heap s1 r = heap s r @ [f] \<and>
              ols E (design (heap s r @ [f])) = Some pv \<and>
              flt (pv (Column f)) threshold_in \<and>
              (\<forall>x \<in> set (columns E) - set (heap s r).
                 \<forall>pv'. ols E (design (heap s r @ [x])) = Some pv' \<longrightarrow>
                       \<not> flt (pv' (Column x)) (pv (Column f)))" if c
    using ff(3) that by blast
  show "s1 = s" if "\<not> c"
    using ff(4) that by blast
next
  assume "backward_step E r threshold_out verbose (c0, s) = Inr (c', s2)"
  then show "\<exists>pv. ols E (design (heap s r)) = Some pv \<and>
         (heap s2 r \<noteq> heap s r \<longleftrightarrow>
            (\<exists>x \<in> set (heap s r). fgt (pv (Column x)) threshold_out)) \<and>
         (heap s2 r \<noteq> heap s r \<longrightarrow>
            (\<exists>w \<in> set (heap s r). heap s2 r = remove1 w (heap s r) \<and>
               fgt (pv (Column w)) threshold_out \<and>
               (\<forall>x \<in> set (heap s r). \<not> fgt (pv (Column x)) (pv (Column w))))) \<and>
         (heap s2 r = heap s r \<longrightarrow> s2 = s \<and> c' = c0)"
    by (rule backward_step_fits)
next
  assume "columns E' = columns E \<and> slot E' = slot E \<and> formats E' = formats E"
    and "\<forall>c \<in> set (columns E) - set (heap s r).
          rel_option (\<lambda>pv pv'. pv (Column c) = pv' (Column c))
            (ols E (design (heap s r @ [c]))) (ols E' (design (heap s r @ [c])))"
  then show "forward_step E' r threshold_in verbose s = forward_step E r threshold_in verbose s"
    by (intro forward_step_cong) simp_all
next
  assume "columns E' = columns E \<and> slot E' = slot E \<and> formats E' = formats E"
    and "rel_option (\<lambda>pv pv'. \<forall>c \<in> set (heap s r). pv (Column c) = pv' (Column c))
            (ols E (design (heap s r))) (ols E' (design (heap s r)))"
  then show "backward_step E' r threshold_out verbose (c0, s)
         = backward_step E r threshold_out verbose (c0, s)"
    by (intro backward_step_cong) simp_all
qed (auto simp: design_def)

theorem fits_are_on_included_columns_witness:
  "forward_step env_ab 1 (Num (1 / 100)) True st1 = Inr (True, st_a) \<and>
   (\<exists>pv. ols env_ab (design (heap st1 1 @ [''b''])) = Some pv) \<and>
   (\<exists>x \<in> set (columns env_ab) - set (heap st1 1).
      \<exists>pv. ols env_ab (design (heap st1 1 @ [x])) = Some pv \<and>
           flt (pv (Column x)) (Num (1 / 100))) \<and>
   (\<exists>f pv. f \<in> set (columns env_ab) - set (heap st1 1) \<and>
      heap st_a 1 = heap st1 1 @ [f] \<and>
      ols env_ab (design (heap st1 1 @ [f])) = Some pv \<and>
      flt (pv (Column f)) (Num (1 / 100))) \<and>
   backward_step env_ab 1 (Num (1 / 20)) True (False, st_ba1) = Inr (True, st_ba2) \<and>
   (\<exists>pv. ols env_ab (design (heap st_ba1 1)) = Some pv \<and>
      heap st_ba2 1 \<noteq> heap st_ba1 1 \<and>
      (\<exists>x \<in> set (heap st_ba1 1). fgt (pv (Column x)) (Num (1 / 20)))) \<and>
   Intercept \<notin> set (design [''a'', ''b'']) \<and>
   columns env_ab2 = columns env_ab \<and> slot env_ab2 = slot env_ab \<and>
   formats env_ab2 = formats env_ab \<and>
   forward_step env_ab2 1 (Num (1 / 100)) True st1
     = forward_step env_ab 1 (Num (1 / 100)) True st1 \<and>
   backward_step env_ab2 1 (Num (1 / 20)) True (False, st_ba1)
     = backward_step env_ab 1 (Num (1 / 20)) True (False, st_ba1) \<and>
   ols env_ab2 (Intercept # design [''a'']) \<noteq> ols env_ab (Intercept # design [''a''])"
proof -
  note T1 = fits_are_on_included_columns [where E = env_ab and r = 1
      and threshold_in = "Num (1 / 100)" and verbose = True and s = st1 and c = True
      and ?s1.0 = st_a and E' = env_ab2 and cols = "[''a'', ''b'']"]
  note T2 = fits_are_on_included_columns [where E = env_ab and r = 1
      and threshold_out = "Num (1 / 20)" and verbose = True and s = st_ba1 and ?c0.0 = False
      and c' = True and ?s2.0 = st_ba2 and E' = env_ab2]
  have e: "columns env_ab2 = columns env_ab" "slot env_ab2 = slot env_ab"
    "formats env_ab2 = formats env_ab"
    "ols env_ab2 (Intercept # design [''a'']) \<noteq> ols env_ab (Intercept # design [''a''])"
    by (simp_all add: columns_def ex_defs)
  have b: "''b'' \<in> set (columns env_ab) - set (heap st1 1)"
    and ne: "heap st_ba2 1 \<noteq> heap st_ba1 1"
    by (simp_all add: columns_def ex_defs)
  have f: "\<forall>c \<in> set (columns env_ab) - set (heap st1 1).
             rel_option (\<lambda>pv pv'. pv (Column c) = pv' (Column c))
               (ols env_ab (design (heap st1 1 @ [c]))) (ols env_ab2 (design (heap st1 1 @ [c])))"
    by (simp add: columns_def design_def ex_defs)
  have g: "rel_option (\<lambda>pv pv'. \<forall>c \<in> set (heap st_ba1 1). pv (Column c) = pv' (Column c))
             (ols env_ab (design (heap st_ba1 1))) (ols env_ab2 (design (heap st_ba1 1)))"
    by (simp add: design_def ex_defs)
  note F = T1 [THEN conjunct1, THEN mp, OF fwd_st1]
  from F [THEN conjunct1] b
  have 1: "\<exists>pv. ols env_ab (design (heap st1 1 @ [''b''])) = Some pv"
    by (rule bspec)
  from F [THEN conjunct2, THEN conjunct1]
  have 2: "\<exists>x \<in> set (columns env_ab) - set (heap st1 1).
      \<exists>pv. ols env_ab (design (heap st1 1 @ [x])) = Some pv \<and>
           flt (pv (Column x)) (Num (1 / 100))"
    by simp
  from F [THEN conjunct2, THEN conjunct2, THEN conjunct1]
  obtain f0 pv0 where "f0 \<in> set (columns env_ab) - set (heap st1 1)"
    "heap st_a 1 = heap st1 1 @ [f0]" "ols env_ab (design (heap st1 1 @ [f0])) = Some pv0"
    "flt (pv0 (Column f0)) (Num (1 / 100))"
    by auto
  then have 3: "\<exists>f pv. f \<in> set (columns env_ab) - set (heap st1 1) \<and>
      heap st_a 1 = heap st1 1 @ [f] \<and>
      ols env_ab (design (heap st1 1 @ [f])) = Some pv \<and>
      flt (pv (Column f)) (Num (1 / 100))"
    by (intro exI[of _ f0] exI[of _ pv0] conjI)
  from T2 [THEN conjunct2, THEN conjunct1, THEN mp, OF bwd_st_ba1]
  obtain pv1 where pv1: "ols env_ab (design (heap st_ba1 1)) = Some pv1"
    "heap st_ba2 1 \<noteq> heap st_ba1 1 \<longleftrightarrow>
       (\<exists>x \<in> set (heap st_ba1 1). fgt (pv1 (Column x)) (Num (1 / 20)))"
    by auto
  from pv1 ne have 4: "\<exists>pv. ols env_ab (design (heap st_ba1 1)) = Some pv \<and>
      heap st_ba2 1 \<noteq> heap st_ba1 1 \<and>
      (\<exists>x \<in> set (heap st_ba1 1). fgt (pv (Column x)) (Num (1 / 20)))"
    by (intro exI[of _ pv1]) simp
  have 5: "Intercept \<notin> set (design [''a'', ''b''])"
    by (rule T1 [THEN conjunct2, THEN conjunct2, THEN conjunct1, THEN conjunct1])
  note e3 = conjI [OF e(1) conjI [OF e(2) e(3)]]
  have 6: "forward_step env_ab2 1 (Num (1 / 100)) True st1
     = forward_step env_ab 1 (Num (1 / 100)) True st1"
    by (rule T1 [THEN conjunct2, THEN conjunct2, THEN conjunct2, THEN mp, OF e3,
          THEN conjunct1, THEN mp, OF f])
  have 7: "backward_step env_ab2 1 (Num (1 / 20)) True (False, st_ba1)
     = backward_step env_ab 1 (Num (1 / 20)) True (False, st_ba1)"
    by (rule T2 [THEN conjunct2, THEN conjunct2, THEN conjunct2, THEN mp, OF e3,
          THEN conjunct2, THEN mp, OF g])
  show ?thesis
    by (intro conjI) (fact fwd_st1 1 2 3 bwd_st_ba1 4 5 e 6 7)+
qed

end
